theory Spec2Isabelle
  imports Complex_Main "HOL-Library.Word"
begin

unbundle bit_operations_syntax

section \<open>The PMW3901 / PAA5100 optical flow driver\<close>

text \<open>
  A shallow embedding of \<^verbatim>\<open>pmw3901/__init__.py\<close>. Python integers are \<open>int\<close>, with
  \<open>AND\<close>, \<open>OR\<close>, \<open>NOT\<close>, \<open>push_bit\<close> and \<open>drop_bit\<close> for \<^verbatim>\<open>&\<close>, \<^verbatim>\<open>|\<close>,
  \<^verbatim>\<open>~\<close>, \<^verbatim>\<open><<\<close> and \<^verbatim>\<open>>>\<close>. Seconds are rationals. Everything the driver does to
  the outside (a bus transaction, a chip-select line, a sleep) is appended to a trace, and
  everything it gets from the outside (the bytes a transaction receives, the reading of the
  clock) comes from the world it runs in.

  The embedding covers the register transactions, the sequence player, the calibration,
  the construction from the point where the bus is open, the two motion reads and the
  frame capture. Opening the bus, the orientation register and the command line are left
  out.
\<close>

subsection \<open>Constants\<close>

definition WAIT :: int where "WAIT = - 1"

definition REG_ID :: int where "REG_ID = 0x00"
definition REG_DATA_READY :: int where "REG_DATA_READY = 0x02"
definition REG_MOTION_BURST :: int where "REG_MOTION_BURST = 0x16"
definition REG_POWER_UP_RESET :: int where "REG_POWER_UP_RESET = 0x3A"
definition REG_ORIENTATION :: int where "REG_ORIENTATION = 0x5B"
definition REG_RAWDATA_GRAB :: int where "REG_RAWDATA_GRAB = 0x58"
definition REG_RAWDATA_GRAB_STATUS :: int where "REG_RAWDATA_GRAB_STATUS = 0x59"

definition RAW_DATA_LEN :: nat where "RAW_DATA_LEN = 1225"

subsection \<open>The world, the driver object and errors\<close>

text \<open>A chip-select pin is the offset of a GPIO line.\<close>

type_synonym pin = nat

text \<open>
  What the driver does to the outside: \<open>Xfer2 tx\<close> is one call \<^verbatim>\<open>spi_dev.xfer2(tx)\<close>,
  \<open>SetValue p b\<close> is \<^verbatim>\<open>lines.set_value(offset, ACTIVE if b else INACTIVE)\<close>, and
  \<open>Sleep s\<close> is \<^verbatim>\<open>time.sleep(s)\<close>.
\<close>

datatype event = Xfer2 "int list" | SetValue pin bool | Sleep rat

text \<open>
  The world: the state \<open>dev\<close> of whatever answers on the bus, the clock (\<open>clock n\<close> is
  what the \<open>n\<close>-th call of \<^verbatim>\<open>time.time()\<close> returns, \<open>ticks\<close> counts the calls made so
  far), and the trace of events, oldest first.
\<close>

record 'd world =
  dev :: 'd
  clock :: "nat \<Rightarrow> rat"
  ticks :: nat
  trace :: "event list"

text \<open>
  The driver object: \<open>xfer2\<close> is the behaviour of \<^verbatim>\<open>self.spi_dev.xfer2\<close> (the bytes
  received and the next state of the bus device), \<open>spi_cs_gpio\<close> is
  \<^verbatim>\<open>self._spi_cs_gpio\<close>, and \<open>chip\<close> tells the class (\<^verbatim>\<open>PAA5100\<close> overrides
  \<^verbatim>\<open>_secret_sauce\<close> only).
\<close>

datatype chip = PMW3901 | PAA5100

record 'd driver =
  xfer2 :: "'d \<Rightarrow> int list \<Rightarrow> int list \<times> 'd"
  spi_cs_gpio :: "pin option"
  chip :: chip

text \<open>
  The messages of the \<^verbatim>\<open>RuntimeError\<close>s the driver raises, each with the values its
  format string prints:
  \<^item> \<open>InvalidId p r\<close>: \<^verbatim>\<open>Invalid Product ID or Revision for PMW3901: 0x{p:02x}/0x{r:02x}\<close>;
  \<^item> \<open>MotionTimeout\<close>: \<^verbatim>\<open>Timed out waiting for motion data.\<close>;
  \<^item> \<open>FrameInitTimeout\<close>: \<^verbatim>\<open>Frame capture init timed out\<close>;
  \<^item> \<open>RawTimeout x\<close>: \<^verbatim>\<open>Raw data capture timeout, got {x} values\<close>.

  The other errors are raised by the language and its library: \<open>IndexError\<close> by an index
  out of range, \<open>ValueError\<close> by unpacking a sequence of the wrong length, by
  \<^verbatim>\<open>bytearray\<close> on a value outside \<^verbatim>\<open>range(256)\<close> and by a negative
  \<^verbatim>\<open>time.sleep\<close>, \<open>StructError\<close> by \<^verbatim>\<open>struct.unpack\<close> on a buffer of the wrong size,
  \<open>TypeError\<close> by an operation on a value of the wrong type.
\<close>

datatype message = InvalidId int int | MotionTimeout | FrameInitTimeout | RawTimeout nat

datatype error = RuntimeError message | IndexError | ValueError | StructError | TypeError

text \<open>A method: from a world to a result (or the exception raised) and the world after.\<close>

type_synonym ('a, 'd) prog = "'d world \<Rightarrow> (error + 'a) \<times> 'd world"

definition ret :: "'a \<Rightarrow> ('a, 'd) prog" where
  "ret a w = (Inr a, w)"

definition raise :: "error \<Rightarrow> ('a, 'd) prog" where
  "raise e w = (Inl e, w)"

definition bind :: "('a, 'd) prog \<Rightarrow> ('a \<Rightarrow> ('b, 'd) prog) \<Rightarrow> ('b, 'd) prog" where
  "bind m f w = (case m w of (Inl e, w') \<Rightarrow> (Inl e, w') | (Inr a, w') \<Rightarrow> f a w')"

text \<open>One statement after another, the first one's value dropped.\<close>

definition seq :: "('a, 'd) prog \<Rightarrow> ('b, 'd) prog \<Rightarrow> ('b, 'd) prog" where
  "seq m n = bind m (\<lambda>_. n)"

subsection \<open>The outside: clock, sleep, chip select, bus\<close>

definition log :: "event \<Rightarrow> (unit, 'd) prog" where
  "log e w = (Inr (), w\<lparr>trace := trace w @ [e]\<rparr>)"

text \<open>\<^verbatim>\<open>time.time()\<close>\<close>

definition time_time :: "'d world \<Rightarrow> rat \<times> 'd world" where
  "time_time w = (clock w (ticks w), w\<lparr>ticks := Suc (ticks w)\<rparr>)"

text \<open>\<^verbatim>\<open>time.sleep(secs)\<close>, which refuses a negative length.\<close>

definition time_sleep :: "rat \<Rightarrow> (unit, 'd) prog" where
  "time_sleep secs = (if secs < 0 then raise ValueError else log (Sleep secs))"

text \<open>\<^verbatim>\<open>set_pin(pin, state)\<close>\<close>

definition set_pin :: "pin \<Rightarrow> bool \<Rightarrow> (unit, 'd) prog" where
  "set_pin p state = log (SetValue p state)"

text \<open>
  The statement \<^verbatim>\<open>if self._spi_cs_gpio: self.set_pin(self._spi_cs_gpio, state)\<close> that
  brackets every transaction.
\<close>

definition cs :: "'d driver \<Rightarrow> bool \<Rightarrow> (unit, 'd) prog" where
  "cs self state = (case spi_cs_gpio self of None \<Rightarrow> ret () | Some p \<Rightarrow> set_pin p state)"

text \<open>\<^verbatim>\<open>self.spi_dev.xfer2(tx)\<close>\<close>

definition spi_xfer2 :: "'d driver \<Rightarrow> int list \<Rightarrow> (int list, 'd) prog" where
  "spi_xfer2 self tx w =
     (case xfer2 self (dev w) tx of
        (rx, d') \<Rightarrow> (Inr rx, w\<lparr>dev := d', trace := trace w @ [Xfer2 tx]\<rparr>))"

subsection \<open>Register access\<close>

text \<open>\<^verbatim>\<open>_write(register, value)\<close>\<close>

definition write_reg :: "'d driver \<Rightarrow> int \<Rightarrow> int \<Rightarrow> (unit, 'd) prog" where
  "write_reg self register val =
     seq (cs self False)
       (seq (spi_xfer2 self [register OR 0x80, val])
         (cs self True))"

text \<open>
  \<^verbatim>\<open>_read(register, length)\<close>. The loop \<^verbatim>\<open>for x in range(length)\<close> runs over the
  offsets left to do and appends to \<open>result\<close>; \<^verbatim>\<open>value[1]\<close> raises on an answer of
  fewer than two bytes.
\<close>

fun read_loop :: "'d driver \<Rightarrow> int \<Rightarrow> nat list \<Rightarrow> int list \<Rightarrow> (int list, 'd) prog" where
  "read_loop self register [] result = ret result"
| "read_loop self register (x # xs) result =
     seq (cs self False)
       (bind (spi_xfer2 self [register + int x, 0]) (\<lambda>val.
          seq (cs self True)
            (if length val < 2 then raise IndexError
             else read_loop self register xs (result @ [val ! 1]))))"

text \<open>What \<^verbatim>\<open>_read\<close> returns: one value when \<^verbatim>\<open>length == 1\<close>, the list otherwise.\<close>

datatype read_result = Single int | Many "int list"

definition read :: "'d driver \<Rightarrow> int \<Rightarrow> int \<Rightarrow> (read_result, 'd) prog" where
  "read self register len =
     bind (read_loop self register [0..<nat len] []) (\<lambda>result.
       if len = 1 then
         (case result of [] \<Rightarrow> raise IndexError | r # _ \<Rightarrow> ret (Single r))
       else ret (Many result))"

text \<open>The call \<^verbatim>\<open>self._read(register)\<close> where the caller goes on with a number.\<close>

definition read_int :: "'d driver \<Rightarrow> int \<Rightarrow> (int, 'd) prog" where
  "read_int self register =
     bind (read self register 1) (\<lambda>r.
       case r of Single v \<Rightarrow> ret v | Many _ \<Rightarrow> raise TypeError)"

text \<open>
  \<^verbatim>\<open>_bulk_write(data)\<close>: \<^verbatim>\<open>register, value = data[x : x + 2]\<close> raises on the single
  element an odd list ends with.
\<close>

fun bulk_write :: "'d driver \<Rightarrow> int list \<Rightarrow> (unit, 'd) prog" where
  "bulk_write self [] = ret ()"
| "bulk_write self [register] = raise ValueError"
| "bulk_write self (register # val # data) =
     seq (if register = WAIT then time_sleep (of_int val / 1000)
          else write_reg self register val)
       (bulk_write self data)"

subsection \<open>Calibration\<close>

text \<open>
  The block \<^verbatim>\<open>if self._read(0x73) == 0x00: ...\<close> of \<^verbatim>\<open>_secret_sauce\<close>, which is
  the same text in \<^verbatim>\<open>PMW3901\<close> and in \<^verbatim>\<open>PAA5100\<close>. The comparison \<^verbatim>\<open>==\<close>
  takes any value, the arithmetic on c1 and c2 takes numbers.
\<close>

definition calibrate :: "'d driver \<Rightarrow> (unit, 'd) prog" where
  "calibrate self =
     bind (read self 0x73 1) (\<lambda>status.
       if status = Single 0x00 then
         bind (read_int self 0x70) (\<lambda>c1.
         bind (read_int self 0x71) (\<lambda>c2.
           let c1 = (if c1 \<le> 28 then c1 + 14 else c1);
               c1 = (if c1 > 28 then c1 + 11 else c1);
               c1 = max 0 (min 0x3F c1);
               c2 = (c2 * 45) div 100
           in seq (bulk_write self
                    [0x7F, 0x00,
                     0x61, 0xAD,
                     0x51, 0x70,
                     0x7F, 0x0E])
               (seq (write_reg self 0x70 c1)
                    (write_reg self 0x71 c2))))
       else ret ())"

text \<open>The last \<^verbatim>\<open>_bulk_write\<close> of \<^verbatim>\<open>PMW3901._secret_sauce\<close>.\<close>

definition pmw3901_tail :: "int list" where
  "pmw3901_tail =
    [0x7F, 0x00, 0x61, 0xAD, 0x7F, 0x03, 0x40, 0x00, 0x7F, 0x05,
     0x41, 0xB3, 0x43, 0xF1, 0x45, 0x14, 0x5B, 0x32, 0x5F, 0x34,
     0x7B, 0x08, 0x7F, 0x06, 0x44, 0x1B, 0x40, 0xBF, 0x4E, 0x3F,
     0x7F, 0x08, 0x65, 0x20, 0x6A, 0x18,
     0x7F, 0x09, 0x4F, 0xAF, 0x5F, 0x40, 0x48, 0x80, 0x49, 0x80,
     0x57, 0x77, 0x60, 0x78, 0x61, 0x78, 0x62, 0x08, 0x63, 0x50,
     0x7F, 0x0A, 0x45, 0x60, 0x7F, 0x00, 0x4D, 0x11,
     0x55, 0x80, 0x74, 0x21, 0x75, 0x1F, 0x4A, 0x78, 0x4B, 0x78,
     0x44, 0x08, 0x45, 0x50, 0x64, 0xFF, 0x65, 0x1F, 0x7F, 0x14,
     0x65, 0x67, 0x66, 0x08, 0x63, 0x70, 0x7F, 0x15, 0x48, 0x48,
     0x7F, 0x07, 0x41, 0x0D, 0x43, 0x14,
     0x4B, 0x0E, 0x45, 0x0F, 0x44, 0x42, 0x4C, 0x80, 0x7F, 0x10,
     0x5B, 0x02, 0x7F, 0x07, 0x40, 0x41, 0x70, 0x00, WAIT, 0x0A,
     0x32, 0x44, 0x7F, 0x07, 0x40, 0x40, 0x7F, 0x06, 0x62, 0xF0,
     0x63, 0x00, 0x7F, 0x0D, 0x48, 0xC0, 0x6F, 0xD5, 0x7F, 0x00,
     0x5B, 0xA0, 0x4E, 0xA8, 0x5A, 0x50, 0x40, 0x80, WAIT, 0xF0,
     0x7F, 0x14, 0x6F, 0x1C, 0x7F, 0x00]"

text \<open>The last \<^verbatim>\<open>_bulk_write\<close> of \<^verbatim>\<open>PAA5100._secret_sauce\<close>.\<close>

definition paa5100_tail :: "int list" where
  "paa5100_tail =
    [0x7F, 0x00, 0x61, 0xAD,
     0x7F, 0x03, 0x40, 0x00,
     0x7F, 0x05, 0x41, 0xB3, 0x43, 0xF1, 0x45, 0x14,
     0x5F, 0x34, 0x7B, 0x08, 0x5E, 0x34, 0x5B, 0x11, 0x6D, 0x11,
     0x45, 0x17, 0x70, 0xE5, 0x71, 0xE5,
     0x7F, 0x06, 0x44, 0x1B, 0x40, 0xBF, 0x4E, 0x3F,
     0x7F, 0x08, 0x66, 0x44, 0x65, 0x20, 0x6A, 0x3A, 0x61, 0x05, 0x62, 0x05,
     0x7F, 0x09, 0x4F, 0xAF, 0x5F, 0x40, 0x48, 0x80, 0x49, 0x80,
     0x57, 0x77, 0x60, 0x78, 0x61, 0x78, 0x62, 0x08, 0x63, 0x50,
     0x7F, 0x0A, 0x45, 0x60,
     0x7F, 0x00, 0x4D, 0x11, 0x55, 0x80, 0x74, 0x21, 0x75, 0x1F,
     0x4A, 0x78, 0x4B, 0x78, 0x44, 0x08,
     0x45, 0x50, 0x64, 0xFF, 0x65, 0x1F,
     0x7F, 0x14, 0x65, 0x67, 0x66, 0x08, 0x63, 0x70, 0x6F, 0x1C,
     0x7F, 0x15, 0x48, 0x48,
     0x7F, 0x07, 0x41, 0x0D, 0x43, 0x14, 0x4B, 0x0E, 0x45, 0x0F,
     0x44, 0x42, 0x4C, 0x80,
     0x7F, 0x10, 0x5B, 0x02,
     0x7F, 0x07, 0x40, 0x41,
     WAIT, 0x0A,
     0x7F, 0x00, 0x32, 0x00,
     0x7F, 0x07, 0x40, 0x40,
     0x7F, 0x06, 0x68, 0xF0, 0x69, 0x00,
     0x7F, 0x0D, 0x48, 0xC0, 0x6F, 0xD5,
     0x7F, 0x00, 0x5B, 0xA0, 0x4E, 0xA8, 0x5A, 0x90, 0x40, 0x80, 0x73, 0x1F,
     WAIT, 0x0A,
     0x73, 0x00]"

text \<open>
  \<^verbatim>\<open>_secret_sauce\<close>. The two classes differ in the last table only (the first two
  are the same numbers).
\<close>

definition secret_sauce_with :: "int list \<Rightarrow> 'd driver \<Rightarrow> (unit, 'd) prog" where
  "secret_sauce_with tail self =
     seq (bulk_write self
            [0x7F, 0x00,
             0x55, 0x01,
             0x50, 0x07,
             0x7F, 0x0E,
             0x43, 0x10])
    (seq (bind (read_int self 0x67) (\<lambda>v.
            if v AND 0b10000000 \<noteq> 0 then write_reg self 0x48 0x04
            else write_reg self 0x48 0x02))
    (seq (bulk_write self
            [0x7F, 0x00,
             0x51, 0x7B,
             0x50, 0x00,
             0x55, 0x00,
             0x7F, 0x0E])
    (seq (calibrate self)
         (bulk_write self tail))))"

definition secret_sauce :: "'d driver \<Rightarrow> (unit, 'd) prog" where
  "secret_sauce self =
     (case chip self of
        PMW3901 \<Rightarrow> secret_sauce_with pmw3901_tail self
      | PAA5100 \<Rightarrow> secret_sauce_with paa5100_tail self)"

subsection \<open>Construction\<close>

text \<open>\<^verbatim>\<open>for offset in range(5): self._read(REG_DATA_READY + offset)\<close>\<close>

fun flush_reads :: "'d driver \<Rightarrow> nat list \<Rightarrow> (unit, 'd) prog" where
  "flush_reads self [] = ret ()"
| "flush_reads self (offset # offsets) =
     seq (read self (REG_DATA_READY + int offset) 1) (flush_reads self offsets)"

text \<open>
  \<^verbatim>\<open>__init__\<close> once the bus is open, up to and including the calibration: the pulse on
  the chip-select line, the reset, the five reads thrown away, the secret sauce.
\<close>

definition power_up :: "'d driver \<Rightarrow> (unit, 'd) prog" where
  "power_up self =
     seq (case spi_cs_gpio self of
            None \<Rightarrow> ret ()
          | Some p \<Rightarrow> seq (set_pin p False) (seq (time_sleep (5 / 100)) (set_pin p True)))
    (seq (write_reg self REG_POWER_UP_RESET 0x5A)
    (seq (time_sleep (2 / 100))
    (seq (flush_reads self [0..<5])
         (secret_sauce self))))"

text \<open>\<^verbatim>\<open>get_id()\<close>\<close>

definition get_id :: "'d driver \<Rightarrow> (read_result, 'd) prog" where
  "get_id self = read self REG_ID 2"

text \<open>
  The end of \<^verbatim>\<open>__init__\<close>: \<^verbatim>\<open>product_id, revision = self.get_id()\<close> and the test of
  the two.
\<close>

definition check_id :: "'d driver \<Rightarrow> (unit, 'd) prog" where
  "check_id self =
     bind (get_id self) (\<lambda>r.
       case r of
         Single _ \<Rightarrow> raise TypeError
       | Many [product_id, revision] \<Rightarrow>
           if product_id \<noteq> 0x49 \<or> revision \<notin> set [0x00, 0x01]
           then raise (RuntimeError (InvalidId product_id revision))
           else ret ()
       | Many _ \<Rightarrow> raise ValueError)"

definition init :: "'d driver \<Rightarrow> (unit, 'd) prog" where
  "init self = seq (power_up self) (check_id self)"

subsection \<open>Motion\<close>

text \<open>
  \<^verbatim>\<open>bytearray(data)\<close> takes values in \<^verbatim>\<open>range(256)\<close> only, and the \<^verbatim>\<open>h\<close> of
  \<^verbatim>\<open>struct.unpack\<close> with \<^verbatim>\<open><\<close> reads two bytes, low byte first, as a signed
  number.
\<close>

definition bytearray :: "int list \<Rightarrow> error + int list" where
  "bytearray data = (if list_all (\<lambda>b. 0 \<le> b \<and> b < 256) data then Inr data else Inl ValueError)"

definition int16_le :: "int \<Rightarrow> int \<Rightarrow> int" where
  "int16_le lo hi = (let u = lo + 256 * hi in if u < 32768 then u else u - 65536)"

text \<open>The fields of \<^verbatim>\<open>struct.unpack("<BBBhhBBBBBB", ...)\<close> after the first, in order.\<close>

record burst =
  dr :: int
  obs :: int
  delta_x :: int
  delta_y :: int
  quality :: int
  raw_sum :: int
  raw_max :: int
  raw_min :: int
  shutter_upper :: int
  shutter_lower :: int

definition unpack_burst :: "int list \<Rightarrow> error + burst" where
  "unpack_burst data =
     (case bytearray data of
        Inl e \<Rightarrow> Inl e
      | Inr b \<Rightarrow>
          if length b \<noteq> 13 then Inl StructError
          else Inr \<lparr>dr = b ! 1, obs = b ! 2,
                    delta_x = int16_le (b ! 3) (b ! 4), delta_y = int16_le (b ! 5) (b ! 6),
                    quality = b ! 7, raw_sum = b ! 8, raw_max = b ! 9, raw_min = b ! 10,
                    shutter_upper = b ! 11, shutter_lower = b ! 12\<rparr>)"

text \<open>
  \<^verbatim>\<open>struct.unpack("<Bhh", bytearray(data))\<close> on what \<^verbatim>\<open>_read\<close> returned:
  \<^verbatim>\<open>bytearray\<close> of a number is that many zero bytes, and raises on a negative one.
\<close>

definition bytearray_of :: "read_result \<Rightarrow> error + int list" where
  "bytearray_of r =
     (case r of
        Single n \<Rightarrow> if n < 0 then Inl ValueError else Inr (replicate (nat n) 0)
      | Many data \<Rightarrow> bytearray data)"

definition unpack_slow :: "read_result \<Rightarrow> error + int \<times> int \<times> int" where
  "unpack_slow data =
     (case bytearray_of data of
        Inl e \<Rightarrow> Inl e
      | Inr b \<Rightarrow>
          if length b \<noteq> 5 then Inl StructError
          else Inr (b ! 0, int16_le (b ! 1) (b ! 2), int16_le (b ! 3) (b ! 4)))"

text \<open>The bracketed burst transaction of \<^verbatim>\<open>get_motion\<close>.\<close>

definition burst_transfer :: "'d driver \<Rightarrow> (int list, 'd) prog" where
  "burst_transfer self =
     seq (cs self False)
       (bind (spi_xfer2 self ([REG_MOTION_BURST] @ replicate 12 0)) (\<lambda>data.
          seq (cs self True) (ret data)))"

text \<open>
  The loop of \<^verbatim>\<open>get_motion\<close>. It runs as long as the clock and the sensor let it, so
  it takes fuel, one unit for each test of the loop condition: \<open>None\<close> says that the fuel
  ran out before the method returned or raised.
\<close>

fun get_motion_loop ::
  "nat \<Rightarrow> 'd driver \<Rightarrow> rat \<Rightarrow> rat \<Rightarrow> 'd world \<Rightarrow> ((error + int \<times> int) \<times> 'd world) option" where
  "get_motion_loop 0 self timeout t_start w = None"
| "get_motion_loop (Suc fuel) self timeout t_start w =
     (case time_time w of (t, w1) \<Rightarrow>
        if t - t_start < timeout then
          (case burst_transfer self w1 of
             (Inl e, w2) \<Rightarrow> Some (Inl e, w2)
           | (Inr data, w2) \<Rightarrow>
               (case unpack_burst data of
                  Inl e \<Rightarrow> Some (Inl e, w2)
                | Inr s \<Rightarrow>
                    if dr s AND 0b10000000 \<noteq> 0
                       \<and> \<not> (quality s < 0x19 \<and> shutter_upper s = 0x1F)
                    then Some (Inr (delta_x s, delta_y s), w2)
                    else (case time_sleep (1 / 1000) w2 of
                            (Inl e, w3) \<Rightarrow> Some (Inl e, w3)
                          | (Inr _, w3) \<Rightarrow> get_motion_loop fuel self timeout t_start w3)))
        else Some (Inl (RuntimeError MotionTimeout), w1))"

definition get_motion ::
  "nat \<Rightarrow> 'd driver \<Rightarrow> rat \<Rightarrow> 'd world \<Rightarrow> ((error + int \<times> int) \<times> 'd world) option" where
  "get_motion fuel self timeout w =
     (case time_time w of (t_start, w1) \<Rightarrow> get_motion_loop fuel self timeout t_start w1)"

text \<open>The loop of \<^verbatim>\<open>get_motion_slow\<close>, with fuel in the same way.\<close>

fun get_motion_slow_loop ::
  "nat \<Rightarrow> 'd driver \<Rightarrow> rat \<Rightarrow> rat \<Rightarrow> 'd world \<Rightarrow> ((error + int \<times> int) \<times> 'd world) option" where
  "get_motion_slow_loop 0 self timeout t_start w = None"
| "get_motion_slow_loop (Suc fuel) self timeout t_start w =
     (case time_time w of (t, w1) \<Rightarrow>
        if t - t_start < timeout then
          (case read self REG_DATA_READY 5 w1 of
             (Inl e, w2) \<Rightarrow> Some (Inl e, w2)
           | (Inr data, w2) \<Rightarrow>
               (case unpack_slow data of
                  Inl e \<Rightarrow> Some (Inl e, w2)
                | Inr (d, x, y) \<Rightarrow>
                    if d AND 0b10000000 \<noteq> 0
                    then Some (Inr (x, y), w2)
                    else (case time_sleep (1 / 1000) w2 of
                            (Inl e, w3) \<Rightarrow> Some (Inl e, w3)
                          | (Inr _, w3) \<Rightarrow> get_motion_slow_loop fuel self timeout t_start w3)))
        else Some (Inl (RuntimeError MotionTimeout), w1))"

definition get_motion_slow ::
  "nat \<Rightarrow> 'd driver \<Rightarrow> rat \<Rightarrow> 'd world \<Rightarrow> ((error + int \<times> int) \<times> 'd world) option" where
  "get_motion_slow fuel self timeout w =
     (case time_time w of (t_start, w1) \<Rightarrow> get_motion_slow_loop fuel self timeout t_start w1)"

subsection \<open>Frame capture\<close>

text \<open>
  An augmented assignment \<^verbatim>\<open>raw_data[x] op= v\<close>: the new item is \<open>f\<close> of the old one,
  and an index out of range raises.
\<close>

definition item_update :: "int list \<Rightarrow> nat \<Rightarrow> (int \<Rightarrow> int) \<Rightarrow> error + int list" where
  "item_update xs i f = (if i < length xs then Inr (xs[i := f (xs ! i)]) else Inl IndexError)"

text \<open>
  What the streaming loop does with one byte \<open>data\<close> read from the grab register: the two
  \<^verbatim>\<open>if\<close>s on its top two bits, on the pixels \<open>raw_data\<close> and the index \<open>x\<close>.
\<close>

definition upper_fragment :: "int \<Rightarrow> int list \<Rightarrow> nat \<Rightarrow> error + int list" where
  "upper_fragment data raw_data x =
     (if data AND 0b11000000 = 0b01000000 then
        (case item_update raw_data x (\<lambda>v. v AND NOT 0b11111100) of
           Inl e \<Rightarrow> Inl e
         | Inr raw_data \<Rightarrow> item_update raw_data x (\<lambda>v. v OR push_bit 2 (data AND 0b00111111)))
      else Inr raw_data)"

definition lower_fragment :: "int \<Rightarrow> int list \<Rightarrow> nat \<Rightarrow> error + int list \<times> nat" where
  "lower_fragment data raw_data x =
     (if data AND 0b11000000 = 0b10000000 then
        (case item_update raw_data x (\<lambda>v. v AND NOT 0b00000011) of
           Inl e \<Rightarrow> Inl e
         | Inr raw_data \<Rightarrow>
            (case item_update raw_data x (\<lambda>v. v OR drop_bit 2 (data AND 0b00001100)) of
               Inl e \<Rightarrow> Inl e
             | Inr raw_data \<Rightarrow> Inr (raw_data, x + 1)))
      else Inr (raw_data, x))"

definition fragment :: "int \<Rightarrow> int list \<Rightarrow> nat \<Rightarrow> error + int list \<times> nat" where
  "fragment data raw_data x =
     (case upper_fragment data raw_data x of
        Inl e \<Rightarrow> Inl e
      | Inr raw_data \<Rightarrow> lower_fragment data raw_data x)"

text \<open>The first loop of \<^verbatim>\<open>frame_capture\<close>, which polls the grab status.\<close>

fun grab_status_loop ::
  "nat \<Rightarrow> 'd driver \<Rightarrow> rat \<Rightarrow> rat \<Rightarrow> 'd world \<Rightarrow> ((error + unit) \<times> 'd world) option" where
  "grab_status_loop 0 self timeout t_start w = None"
| "grab_status_loop (Suc fuel) self timeout t_start w =
     (case read_int self REG_RAWDATA_GRAB_STATUS w of
        (Inl e, w1) \<Rightarrow> Some (Inl e, w1)
      | (Inr status, w1) \<Rightarrow>
          if status AND 0b11000000 \<noteq> 0 then Some (Inr (), w1)
          else (case time_time w1 of (t, w2) \<Rightarrow>
                  if t - t_start > timeout
                  then Some (Inl (RuntimeError FrameInitTimeout), w2)
                  else grab_status_loop fuel self timeout t_start w2))"

text \<open>The second loop of \<^verbatim>\<open>frame_capture\<close>, which streams the pixels.\<close>

fun raw_data_loop ::
  "nat \<Rightarrow> 'd driver \<Rightarrow> rat \<Rightarrow> rat \<Rightarrow> int list \<Rightarrow> nat \<Rightarrow> 'd world
    \<Rightarrow> ((error + int list) \<times> 'd world) option" where
  "raw_data_loop 0 self timeout t_start raw_data x w = None"
| "raw_data_loop (Suc fuel) self timeout t_start raw_data x w =
     (case read_int self REG_RAWDATA_GRAB w of
        (Inl e, w1) \<Rightarrow> Some (Inl e, w1)
      | (Inr data, w1) \<Rightarrow>
          (case fragment data raw_data x of
             Inl e \<Rightarrow> Some (Inl e, w1)
           | Inr (raw_data, x) \<Rightarrow>
               if x = RAW_DATA_LEN then Some (Inr raw_data, w1)
               else (case time_time w1 of (t, w2) \<Rightarrow>
                       if t - t_start > timeout
                       then Some (Inl (RuntimeError (RawTimeout x)), w2)
                       else raw_data_loop fuel self timeout t_start raw_data x w2)))"

text \<open>\<^verbatim>\<open>frame_capture(timeout)\<close>; each of its two loops gets the fuel.\<close>

definition frame_capture ::
  "nat \<Rightarrow> 'd driver \<Rightarrow> rat \<Rightarrow> 'd world \<Rightarrow> ((error + int list) \<times> 'd world) option" where
  "frame_capture fuel self timeout w =
     (case bulk_write self
             [0x7F, 0x07,
              0x4C, 0x00,
              0x7F, 0x08,
              0x6A, 0x38,
              0x7F, 0x00,
              0x55, 0x04,
              0x40, 0x80,
              0x4D, 0x11,
              WAIT, 0x0A,
              0x7F, 0x00,
              0x58, 0xFF] w of
        (Inl e, w1) \<Rightarrow> Some (Inl e, w1)
      | (Inr _, w1) \<Rightarrow>
          (case time_time w1 of (t_start, w2) \<Rightarrow>
             (case grab_status_loop fuel self timeout t_start w2 of
                None \<Rightarrow> None
              | Some (Inl e, w3) \<Rightarrow> Some (Inl e, w3)
              | Some (Inr _, w3) \<Rightarrow>
                  (case write_reg self REG_RAWDATA_GRAB 0x00 w3 of
                     (Inl e, w4) \<Rightarrow> Some (Inl e, w4)
                   | (Inr _, w4) \<Rightarrow>
                       (case time_time w4 of (t_start, w5) \<Rightarrow>
                          raw_data_loop fuel self timeout t_start
                            (replicate RAW_DATA_LEN 0) 0 w5)))))"

section \<open>What is observed, and a simulated sensor\<close>

text \<open>
  The events of \<^verbatim>\<open>if self._spi_cs_gpio: self.set_pin(self._spi_cs_gpio, state)\<close>, and
  the events of one transaction with the chip select around it.
\<close>

definition cs_events :: "'d driver \<Rightarrow> bool \<Rightarrow> event list" where
  "cs_events self state = (case spi_cs_gpio self of None \<Rightarrow> [] | Some p \<Rightarrow> [SetValue p state])"

definition bracket :: "'d driver \<Rightarrow> int list \<Rightarrow> event list" where
  "bracket self tx = cs_events self False @ [Xfer2 tx] @ cs_events self True"

text \<open>The transactions of a trace, in order: what was transmitted on the bus.\<close>

fun transactions :: "event list \<Rightarrow> int list list" where
  "transactions [] = []"
| "transactions (Xfer2 tx # es) = tx # transactions es"
| "transactions (SetValue p b # es) = transactions es"
| "transactions (Sleep s # es) = transactions es"

text \<open>
  A simulated transport for tests: a register file that stores the value of a write (a
  two-byte transaction whose first byte has bit 7 set) under the address without bit 7, and
  answers a read with the value stored under the address as its second byte. Any other
  transaction is answered with zeros.
\<close>

definition sim_xfer2 :: "(int \<Rightarrow> int) \<Rightarrow> int list \<Rightarrow> int list \<times> (int \<Rightarrow> int)" where
  "sim_xfer2 regs tx =
     (case tx of
        [a, v] \<Rightarrow>
          if a AND 0x80 \<noteq> 0 then ([0, 0], regs(a AND 0x7F := v)) else ([0, regs a], regs)
      | _ \<Rightarrow> (map (\<lambda>_. 0) tx, regs))"

text \<open>A register file that holds the listed values, and zero everywhere else.\<close>

definition sim_regs :: "(int \<times> int) list \<Rightarrow> int \<Rightarrow> int" where
  "sim_regs kvs a = (case map_of kvs a of None \<Rightarrow> 0 | Some v \<Rightarrow> v)"

definition sim_driver :: "pin option \<Rightarrow> chip \<Rightarrow> (int \<Rightarrow> int) driver" where
  "sim_driver p c = \<lparr>xfer2 = sim_xfer2, spi_cs_gpio = p, chip = c\<rparr>"

text \<open>A world around the register file, with a clock that gains a second at each reading.\<close>

definition sim_world :: "(int \<Rightarrow> int) \<Rightarrow> (int \<Rightarrow> int) world" where
  "sim_world regs = \<lparr>dev = regs, clock = (\<lambda>n. of_nat n), ticks = 0, trace = []\<rparr>"

subsection \<open>The calibration arithmetic as the specification words it\<close>

definition clamp_c1 :: "int \<Rightarrow> int" where
  "clamp_c1 v = (if v < 0 then 0 else if 0x3F < v then 0x3F else v)"

definition spec_adjust_c1 :: "int \<Rightarrow> int" where
  "spec_adjust_c1 c1 =
     (let first = (if c1 \<le> 28 then c1 + 14 else c1);
          second = (if first > 28 then first + 11 else first)
      in clamp_c1 second)"

definition spec_adjust_c2 :: "int \<Rightarrow> int" where
  "spec_adjust_c2 c2 = (c2 * 45) div 100"

subsection \<open>The bus device over several transactions\<close>

text \<open>
  The contract of the bus primitive: it receives as many bytes as it sends.
\<close>

definition full_duplex :: "('d \<Rightarrow> int list \<Rightarrow> int list \<times> 'd) \<Rightarrow> bool" where
  "full_duplex xf = (\<forall>d tx. length (fst (xf d tx)) = length tx)"

text \<open>
  What a device in state \<open>d\<close> answers to a list of transactions sent one after the other,
  and the state it is in after them.
\<close>

fun answers ::
  "('d \<Rightarrow> int list \<Rightarrow> int list \<times> 'd) \<Rightarrow> 'd \<Rightarrow> int list list \<Rightarrow> int list list" where
  "answers xf d [] = []"
| "answers xf d (tx # txs) = fst (xf d tx) # answers xf (snd (xf d tx)) txs"

fun after :: "('d \<Rightarrow> int list \<Rightarrow> int list \<times> 'd) \<Rightarrow> 'd \<Rightarrow> int list list \<Rightarrow> 'd" where
  "after xf d [] = d"
| "after xf d (tx # txs) = after xf (snd (xf d tx)) txs"

subsection \<open>The steps of a sequence\<close>

text \<open>
  The flat list of a sequence of (register, value) pairs, and what the specification says
  one step does: a pair that starts with the sentinel sleeps for its second element taken
  as milliseconds, any other pair is one bracketed register write.
\<close>

definition flat :: "(int \<times> int) list \<Rightarrow> int list" where
  "flat ps = concat (map (\<lambda>(r, v). [r, v]) ps)"

definition step_events :: "'d driver \<Rightarrow> int \<times> int \<Rightarrow> event list" where
  "step_events self p =
     (case p of (r, v) \<Rightarrow>
        if r = WAIT then [Sleep (of_int v / 1000)] else bracket self [r OR 0x80, v])"

subsection \<open>Sequences that run to their end\<close>

text \<open>
  A flat list the sequence player runs without raising: an even number of elements, and
  no negative wait.
\<close>

fun well_formed_seq :: "int list \<Rightarrow> bool" where
  "well_formed_seq [] = True"
| "well_formed_seq [r] = False"
| "well_formed_seq (r # v # data) = ((r \<noteq> WAIT \<or> 0 \<le> v) \<and> well_formed_seq data)"

subsection \<open>A sensor that only has an identity\<close>

text \<open>
  A bus device without state that answers a read of register 0x00 with a product id, a
  read of register 0x01 with a revision, and anything else with bytes 0xFF.
\<close>

definition id_xfer2 :: "int \<Rightarrow> int \<Rightarrow> unit \<Rightarrow> int list \<Rightarrow> int list \<times> unit" where
  "id_xfer2 product_id revision u tx =
     (if tx = [0x00, 0] then ([0, product_id], ())
      else if tx = [0x01, 0] then ([0, revision], ())
      else (map (\<lambda>b. 0xFF) tx, ()))"

definition id_driver :: "int \<Rightarrow> int \<Rightarrow> chip \<Rightarrow> unit driver" where
  "id_driver product_id revision c =
     \<lparr>xfer2 = id_xfer2 product_id revision, spi_cs_gpio = None, chip = c\<rparr>"

definition unit_world :: "unit world" where
  "unit_world = \<lparr>dev = (), clock = (\<lambda>n. of_nat n), ticks = 0, trace = []\<rparr>"

subsection \<open>Polling\<close>

text \<open>
  A byte is a number in \<^verbatim>\<open>range(256)\<close>. The bus primitive receives as many bytes as it
  sends.
\<close>

definition is_byte :: "int \<Rightarrow> bool" where
  "is_byte b = (0 \<le> b \<and> b < 256)"

definition spi_bytes :: "('d \<Rightarrow> int list \<Rightarrow> int list \<times> 'd) \<Rightarrow> bool" where
  "spi_bytes xf = (\<forall>d tx. length (fst (xf d tx)) = length tx \<and> list_all is_byte (fst (xf d tx)))"

text \<open>
  A polling loop tests two conditions at each round, \<open>first\<close> before \<open>second\<close>, and stops
  at the first round where one holds. With fuel for that many rounds and starting at round
  \<open>k\<close>, \<open>poll\<close> gives the round it stops at: \<open>Inl\<close> when the first condition stopped it,
  \<open>Inr\<close> when the second did, and nothing when the fuel runs out before.
\<close>

fun poll :: "nat \<Rightarrow> (nat \<Rightarrow> bool) \<Rightarrow> (nat \<Rightarrow> bool) \<Rightarrow> nat \<Rightarrow> (nat + nat) option" where
  "poll 0 first second k = None"
| "poll (Suc fuel) first second k =
     (if first k then Some (Inl k)
      else if second k then Some (Inr k)
      else poll fuel first second (Suc k))"

text \<open>
  A motion read called in world \<open>w\<close> reads the clock once for its start, and once more
  before each sample: before sample \<open>k\<close> (counted from 0) the deadline is reached when the
  time since the start is the timeout or more.
\<close>

definition deadline_reached :: "'d world \<Rightarrow> rat \<Rightarrow> nat \<Rightarrow> bool" where
  "deadline_reached w timeout k = (timeout \<le> clock w (ticks w + 1 + k) - clock w (ticks w))"

subsection \<open>Motion samples\<close>

text \<open>
  The burst transaction, and the answer number \<open>k\<close> of a bus device in state \<open>d\<close> that is
  sent burst transactions only.
\<close>

definition burst_tx :: "int list" where
  "burst_tx = [REG_MOTION_BURST] @ replicate 12 0"

definition burst_sample :: "'d driver \<Rightarrow> 'd \<Rightarrow> nat \<Rightarrow> int list" where
  "burst_sample self d k =
     fst (xfer2 self (after (xfer2 self) d (replicate k burst_tx)) burst_tx)"

text \<open>
  The validity rule of the specification, on the data-ready flag, the quality and the upper
  shutter byte; and the rule on the 13 bytes of a burst answer, where the flag is bit 7 of
  byte 1, the quality is byte 7 and the upper shutter byte is byte 11.
\<close>

definition spec_valid :: "bool \<Rightarrow> int \<Rightarrow> int \<Rightarrow> bool" where
  "spec_valid data_ready qual shutter_up = (data_ready \<and> \<not> (qual < 0x19 \<and> shutter_up = 0x1F))"

definition burst_valid :: "int list \<Rightarrow> bool" where
  "burst_valid s = spec_valid (bit (s ! 1) 7) (s ! 7) (s ! 11)"

text \<open>
  The five transactions of one slow sample, and sample number \<open>k\<close> of a bus device in
  state \<open>d\<close> that is sent slow reads only: the second bytes of the five answers. A slow
  sample is valid when bit 7 of its first byte is set.
\<close>

definition slow_txs :: "int list list" where
  "slow_txs = [[0x02, 0], [0x03, 0], [0x04, 0], [0x05, 0], [0x06, 0]]"

definition slow_sample :: "'d driver \<Rightarrow> 'd \<Rightarrow> nat \<Rightarrow> int list" where
  "slow_sample self d k =
     map (\<lambda>rx. rx ! 1)
       (answers (xfer2 self) (after (xfer2 self) d (concat (replicate k slow_txs))) slow_txs)"

definition slow_valid :: "int list \<Rightarrow> bool" where
  "slow_valid s = bit (s ! 0) 7"

text \<open>
  A little-endian signed 16-bit integer, by the word library: the two bytes make a 16-bit
  word, read in two's complement.
\<close>

definition sint16_le :: "int \<Rightarrow> int \<Rightarrow> int" where
  "sint16_le lo hi = sint (word_of_int (lo + 256 * hi) :: 16 word)"

subsection \<open>A scripted sensor\<close>

text \<open>
  A bus device that answers the transactions it gets with the entries of a script, one
  after the other, and with zeros when the script has run out or its entry is not a
  sequence of bytes of the length sent.
\<close>

definition script_xfer2 :: "int list list \<Rightarrow> int list \<Rightarrow> int list \<times> int list list" where
  "script_xfer2 s tx =
     (case s of
        [] \<Rightarrow> (map (\<lambda>b. 0) tx, [])
      | rx # rest \<Rightarrow>
          (if length rx = length tx \<and> list_all is_byte rx then rx else map (\<lambda>b. 0) tx, rest))"

definition script_driver :: "int list list driver" where
  "script_driver = \<lparr>xfer2 = script_xfer2, spi_cs_gpio = None, chip = PMW3901\<rparr>"

definition script_world :: "int list list \<Rightarrow> int list list world" where
  "script_world s = \<lparr>dev = s, clock = (\<lambda>n. of_nat n), ticks = 0, trace = []\<rparr>"

subsection \<open>The stream of a frame capture\<close>

text \<open>
  The transaction that reads the grab register, and byte number \<open>k\<close> that a bus device in
  state \<open>d\<close> gives when it is sent such reads only.
\<close>

definition grab_tx :: "int list" where
  "grab_tx = [REG_RAWDATA_GRAB, 0]"

definition grab_byte :: "'d driver \<Rightarrow> 'd \<Rightarrow> nat \<Rightarrow> int" where
  "grab_byte self d k = fst (xfer2 self (after (xfer2 self) d (replicate k grab_tx)) grab_tx) ! 1"

text \<open>
  A lower fragment has the pattern 10 in its top two bits, bit 7 and bit 6. The number of
  lower fragments among the first \<open>n\<close> bytes of the stream is the pixel index after them.
\<close>

definition is_lower :: "int \<Rightarrow> bool" where
  "is_lower b = (bit b 7 \<and> \<not> bit b 6)"

definition lower_count :: "'d driver \<Rightarrow> 'd \<Rightarrow> nat \<Rightarrow> nat" where
  "lower_count self d n = length (filter is_lower (map (grab_byte self d) [0..<n]))"

text \<open>
  The streaming loop entered in world \<open>w\<close> reads the clock once after each byte: after
  byte \<open>k\<close> the timeout has elapsed when the time since \<open>t_start\<close> is more than the
  timeout.
\<close>

definition stream_late :: "'d world \<Rightarrow> rat \<Rightarrow> rat \<Rightarrow> nat \<Rightarrow> bool" where
  "stream_late w t_start timeout k = (timeout < clock w (ticks w + k) - t_start)"

text \<open>
  The frame as the specification describes it, from the bytes of the stream in order: an
  upper fragment (top bits 01) carries the upper six bits of the current pixel, placed in
  bits 7 to 2; a lower fragment (top bits 10) carries its lower two bits, in its own bits
  3 and 2, and completes the pixel; any other byte is passed over. The state is the pixels
  completed so far and the upper bits held for the current one.
\<close>

definition is_upper :: "int \<Rightarrow> bool" where
  "is_upper b = (\<not> bit b 7 \<and> bit b 6)"

definition assemble_step :: "int list \<times> int \<Rightarrow> int \<Rightarrow> int list \<times> int" where
  "assemble_step s b =
     (case s of (pixels, high) \<Rightarrow>
        if is_upper b then (pixels, push_bit 2 (b AND 0x3F))
        else if is_lower b then (pixels @ [high OR drop_bit 2 (b AND 0x0C)], 0)
        else (pixels, high))"

definition assemble :: "int list \<Rightarrow> int list" where
  "assemble bs = fst (foldl assemble_step ([], 0) bs)"

text \<open>The first \<open>n\<close> bytes of the stream.\<close>

definition stream_bytes :: "'d driver \<Rightarrow> 'd \<Rightarrow> nat \<Rightarrow> int list" where
  "stream_bytes self d n = map (grab_byte self d) [0..<n]"

text \<open>
  A sensor that streams the same pixel for ever: it answers the reads it gets with the
  upper fragment \<open>0b01010101\<close> and the lower fragment \<open>0b10001000\<close> in turn. Its state
  is the number of transactions so far.
\<close>

definition alt_xfer2 :: "nat \<Rightarrow> int list \<Rightarrow> int list \<times> nat" where
  "alt_xfer2 n tx =
     (case tx of
        [a, v] \<Rightarrow> ([0, if even n then 0b01010101 else 0b10001000], Suc n)
      | _ \<Rightarrow> (map (\<lambda>b. 0) tx, Suc n))"

definition alt_driver :: "nat driver" where
  "alt_driver = \<lparr>xfer2 = alt_xfer2, spi_cs_gpio = None, chip = PMW3901\<rparr>"

definition alt_world :: "nat world" where
  "alt_world = \<lparr>dev = 0, clock = (\<lambda>n. of_nat n), ticks = 0, trace = []\<rparr>"

section \<open>Properties\<close>

subsection \<open>Single steps\<close>

lemma transactions_append [simp]:
  "transactions (es @ fs) = transactions es @ transactions fs"
  by (induction es rule: transactions.induct) simp_all

lemma transactions_cs_events [simp]: "transactions (cs_events self b) = []"
  by (simp add: cs_events_def split: option.split)

lemma transactions_bracket [simp]: "transactions (bracket self tx) = [tx]"
  by (simp add: bracket_def)

lemma cs_eq: "cs self b w = (Inr (), w\<lparr>trace := trace w @ cs_events self b\<rparr>)"
  by (simp add: cs_def cs_events_def ret_def set_pin_def log_def split: option.split)

lemma write_reg_eq:
  "write_reg self r v w =
     (Inr (), w\<lparr>dev := snd (xfer2 self (dev w) [r OR 0x80, v]),
               trace := trace w @ bracket self [r OR 0x80, v]\<rparr>)"
  by (simp add: write_reg_def seq_def bind_def cs_eq spi_xfer2_def bracket_def
      split: prod.split)

lemma read_one_eq:
  assumes "xfer2 self (dev w) [r, 0] = (rx, d')" and "2 \<le> length rx"
  shows "read self r 1 w =
           (Inr (Single (rx ! 1)), w\<lparr>dev := d', trace := trace w @ bracket self [r, 0]\<rparr>)"
  using assms
  by (simp add: read_def seq_def bind_def cs_eq spi_xfer2_def bracket_def ret_def)

lemma read_int_eq:
  assumes "xfer2 self (dev w) [r, 0] = (rx, d')" and "2 \<le> length rx"
  shows "read_int self r w =
           (Inr (rx ! 1), w\<lparr>dev := d', trace := trace w @ bracket self [r, 0]\<rparr>)"
  using assms by (simp add: read_int_def bind_def read_one_eq ret_def)

lemma read_int_at:
  assumes "dev w = d" and "xfer2 self d [r, 0] = (rx, d')" and "2 \<le> length rx"
  shows "read_int self r w =
           (Inr (rx ! 1), w\<lparr>dev := d', trace := trace w @ bracket self [r, 0]\<rparr>)"
  using assms by (simp add: read_int_eq)

subsection \<open>Calibration\<close>

text \<open>
  One run of the calibration block when the status register reads zero: the three reads,
  the four fixed writes, and the two values written back, as the code computes them.
\<close>

lemma calibrate_run:
  assumes "xfer2 self (dev w) [0x73, 0] = ([s0, 0], d1)"
    and "xfer2 self d1 [0x70, 0] = ([s1, c1], d2)"
    and "xfer2 self d2 [0x71, 0] = ([s2, c2], d3)"
  shows "fst (calibrate self w) = Inr () \<and>
         transactions (trace (snd (calibrate self w))) =
           transactions (trace w) @
             [[0x73, 0], [0x70, 0], [0x71, 0],
              [0xFF, 0x00], [0xE1, 0xAD], [0xD1, 0x70], [0xFF, 0x0E],
              [0xF0, max 0 (min 0x3F
                 (if (if c1 \<le> 28 then c1 + 14 else c1) > 28
                  then (if c1 \<le> 28 then c1 + 14 else c1) + 11
                  else (if c1 \<le> 28 then c1 + 14 else c1)))],
              [0xF1, (c2 * 45) div 100]]"
proof -
  define w1 where "w1 = w\<lparr>dev := d1, trace := trace w @ bracket self [0x73, 0]\<rparr>"
  define w2 where "w2 = w1\<lparr>dev := d2, trace := trace w1 @ bracket self [0x70, 0]\<rparr>"
  define w3 where "w3 = w2\<lparr>dev := d3, trace := trace w2 @ bracket self [0x71, 0]\<rparr>"
  have r0: "read self 0x73 1 w = (Inr (Single 0), w1)"
    using read_one_eq [OF assms(1)] by (simp add: w1_def)
  have r1: "read_int self 0x70 w1 = (Inr c1, w2)"
    using read_int_at [OF _ assms(2), of w1] by (simp add: w1_def w2_def)
  have r2: "read_int self 0x71 w2 = (Inr c2, w3)"
    using read_int_at [OF _ assms(3), of w2] by (simp add: w2_def w3_def)
  have tr: "transactions (trace w3) = transactions (trace w) @ [[0x73, 0], [0x70, 0], [0x71, 0]]"
    by (simp add: w1_def w2_def w3_def)
  show ?thesis
    by (simp add: calibrate_def bind_def r0 r1 r2 tr Let_def seq_def write_reg_eq WAIT_def
        ret_def)
qed

lemma sim_reads:
  "sim_xfer2 regs [0x73, 0] = ([0, regs 0x73], regs)"
  "sim_xfer2 regs [0x70, 0] = ([0, regs 0x70], regs)"
  "sim_xfer2 regs [0x71, 0] = ([0, regs 0x71], regs)"
  by (simp_all add: sim_xfer2_def)

text \<open>
  \<^bold>\<open>C1.\<close> When the status register 0x73 reads 0x00, the calibration reads c1 from 0x70 and
  c2 from 0x71, and after the four fixed writes it writes back to 0x70 and 0x71 (as the
  transactions \<open>[0xF0, _]\<close> and \<open>[0xF1, _]\<close>) the values the specification describes: c1
  plus 14 if it is at most 28, then plus 11 if that is more than 28, then clamped to
  \<open>[0, 0x3F]\<close>; and c2 times 45 divided by 100, rounded down. This holds for all numbers
  c1 and c2 the reads may give, bytes among them, whatever the bus device, the chip select
  and the world before.
\<close>

theorem calibrate_writes_adjusted:
  assumes "xfer2 self (dev w) [0x73, 0] = ([s0, 0], d1)"
    and "xfer2 self d1 [0x70, 0] = ([s1, c1], d2)"
    and "xfer2 self d2 [0x71, 0] = ([s2, c2], d3)"
  shows "fst (calibrate self w) = Inr () \<and>
         transactions (trace (snd (calibrate self w))) =
           transactions (trace w) @
             [[0x73, 0], [0x70, 0], [0x71, 0],
              [0xFF, 0x00], [0xE1, 0xAD], [0xD1, 0x70], [0xFF, 0x0E],
              [0xF0, spec_adjust_c1 c1], [0xF1, spec_adjust_c2 c2]]"
proof -
  have "max 0 (min 0x3F
          (if (if c1 \<le> 28 then c1 + 14 else c1) > 28
           then (if c1 \<le> 28 then c1 + 14 else c1) + 11
           else (if c1 \<le> 28 then c1 + 14 else c1))) = spec_adjust_c1 c1"
    by (simp add: spec_adjust_c1_def clamp_c1_def Let_def)
  moreover have "(c2 * 45) div 100 = spec_adjust_c2 c2"
    by (simp add: spec_adjust_c2_def)
  ultimately show ?thesis
    using calibrate_run [OF assms] by simp
qed

theorem calibrate_writes_adjusted_witness:
  "fst (calibrate (sim_driver None PMW3901) (sim_world (sim_regs [(0x70, 20), (0x71, 200)])))
     = Inr () \<and>
   transactions (trace (snd (calibrate (sim_driver None PMW3901)
       (sim_world (sim_regs [(0x70, 20), (0x71, 200)]))))) =
     [[0x73, 0], [0x70, 0], [0x71, 0],
      [0xFF, 0x00], [0xE1, 0xAD], [0xD1, 0x70], [0xFF, 0x0E],
      [0xF0, 45], [0xF1, 90]]"
  using calibrate_writes_adjusted
    [of "sim_driver None PMW3901" "sim_world (sim_regs [(0x70, 20), (0x71, 200)])"
        0 "sim_regs [(0x70, 20), (0x71, 200)]" 0 20 "sim_regs [(0x70, 20), (0x71, 200)]"
        0 200 "sim_regs [(0x70, 20), (0x71, 200)]"]
  by (simp add: sim_driver_def sim_world_def sim_reads sim_regs_def spec_adjust_c1_def
      spec_adjust_c2_def clamp_c1_def)

text \<open>
  \<^bold>\<open>C2\<close>, as the code has it. With the status register reading 0x00, the value written
  back to 0x70 is 53 when c1 = 28 (28 is at most 28, so it becomes 42; 42 is more than 28,
  so 11 is added as well), 40 when c1 = 29, and 0x3F when c1 = 0x50; the value written
  back to 0x71 is 45 when c2 = 100 and 114 when c2 = 255.
\<close>

theorem calibrate_examples:
  assumes "xfer2 self (dev w) [0x73, 0] = ([s0, 0], d1)"
    and "xfer2 self d1 [0x70, 0] = ([s1, c1], d2)"
    and "xfer2 self d2 [0x71, 0] = ([s2, c2], d3)"
  shows "\<exists>v1 v2.
           transactions (trace (snd (calibrate self w))) =
             transactions (trace w) @
               [[0x73, 0], [0x70, 0], [0x71, 0],
                [0xFF, 0x00], [0xE1, 0xAD], [0xD1, 0x70], [0xFF, 0x0E],
                [0xF0, v1], [0xF1, v2]] \<and>
           (c1 = 28 \<longrightarrow> v1 = 53) \<and> (c1 = 29 \<longrightarrow> v1 = 40) \<and> (c1 = 0x50 \<longrightarrow> v1 = 0x3F) \<and>
           (c2 = 100 \<longrightarrow> v2 = 45) \<and> (c2 = 255 \<longrightarrow> v2 = 114)"
  using calibrate_run [OF assms] by simp

theorem calibrate_examples_witness:
  "(\<exists>v1 v2.
      transactions (trace (snd (calibrate (sim_driver None PMW3901)
          (sim_world (sim_regs [(0x70, 28), (0x71, 100)]))))) =
        [[0x73, 0], [0x70, 0], [0x71, 0],
         [0xFF, 0x00], [0xE1, 0xAD], [0xD1, 0x70], [0xFF, 0x0E],
         [0xF0, v1], [0xF1, v2]] \<and> v1 = 53 \<and> v2 = 45) \<and>
   (\<exists>v1 v2.
      transactions (trace (snd (calibrate (sim_driver None PAA5100)
          (sim_world (sim_regs [(0x70, 29), (0x71, 255)]))))) =
        [[0x73, 0], [0x70, 0], [0x71, 0],
         [0xFF, 0x00], [0xE1, 0xAD], [0xD1, 0x70], [0xFF, 0x0E],
         [0xF0, v1], [0xF1, v2]] \<and> v1 = 40 \<and> v2 = 114) \<and>
   (\<exists>v1 v2.
      transactions (trace (snd (calibrate (sim_driver (Some 7) PMW3901)
          (sim_world (sim_regs [(0x70, 0x50), (0x71, 255)]))))) =
        [[0x73, 0], [0x70, 0], [0x71, 0],
         [0xFF, 0x00], [0xE1, 0xAD], [0xD1, 0x70], [0xFF, 0x0E],
         [0xF0, v1], [0xF1, v2]] \<and> v1 = 0x3F \<and> v2 = 114)"
  using
    calibrate_examples
      [of "sim_driver None PMW3901" "sim_world (sim_regs [(0x70, 28), (0x71, 100)])"
          0 "sim_regs [(0x70, 28), (0x71, 100)]" 0 28 "sim_regs [(0x70, 28), (0x71, 100)]"
          0 100 "sim_regs [(0x70, 28), (0x71, 100)]"]
    calibrate_examples
      [of "sim_driver None PAA5100" "sim_world (sim_regs [(0x70, 29), (0x71, 255)])"
          0 "sim_regs [(0x70, 29), (0x71, 255)]" 0 29 "sim_regs [(0x70, 29), (0x71, 255)]"
          0 255 "sim_regs [(0x70, 29), (0x71, 255)]"]
    calibrate_examples
      [of "sim_driver (Some 7) PMW3901" "sim_world (sim_regs [(0x70, 0x50), (0x71, 255)])"
          0 "sim_regs [(0x70, 0x50), (0x71, 255)]" 0 "0x50" "sim_regs [(0x70, 0x50), (0x71, 255)]"
          0 255 "sim_regs [(0x70, 0x50), (0x71, 255)]"]
  by (simp add: sim_driver_def sim_world_def sim_reads sim_regs_def)

text \<open>
  \<^bold>\<open>C2\<close>, as stated, fails at c1 = 28: against the simulated register file with 28 in
  register 0x70 (and 0 in the status register 0x73), the value the calibration writes back
  to 0x70, in its eighth transaction, is 53 and not 42.
\<close>

theorem calibrate_c1_28_counterexample:
  "transactions (trace (snd (calibrate (sim_driver None PMW3901)
       (sim_world (sim_regs [(0x70, 28), (0x71, 100)]))))) ! 7 = [0xF0, 53] \<and>
   transactions (trace (snd (calibrate (sim_driver None PMW3901)
       (sim_world (sim_regs [(0x70, 28), (0x71, 100)]))))) ! 7 \<noteq> [0xF0, 42]"
  using calibrate_run
      [of "sim_driver None PMW3901" "sim_world (sim_regs [(0x70, 28), (0x71, 100)])"
          0 "sim_regs [(0x70, 28), (0x71, 100)]" 0 28 "sim_regs [(0x70, 28), (0x71, 100)]"
          0 100 "sim_regs [(0x70, 28), (0x71, 100)]"]
  by (simp add: sim_driver_def sim_world_def sim_reads sim_regs_def)

subsection \<open>Register transactions\<close>

lemma bit7_iff: "((d::int) AND 0x80 \<noteq> 0) = bit d 7"
  using and_exp_eq_0_iff_not_bit [of d 7] by simp

lemma addr_and_0x80: "0 \<le> a \<Longrightarrow> a \<le> 0x7F \<Longrightarrow> (a::int) AND 0x80 = 0"
  using bit7_iff [of a] by (simp add: bit_iff_odd)

lemma addr_and_0x7F: 
  assumes "0 \<le> a" "a \<le> 0x7F" shows "((a::int) AND 0x7F) = a"
proof -
  have "a AND 0x7F = take_bit 7 a" by (simp add: take_bit_eq_mask mask_eq_exp_minus_1)
  also have "\<dots> = a" using assms by (simp add: take_bit_int_eq_self)
  finally show ?thesis .
qed

lemma write_addr_and_0x7F: "0 \<le> a \<Longrightarrow> a \<le> 0x7F \<Longrightarrow> ((a::int) OR 0x80) AND 0x7F = a"
  by (simp add: bit.conj_disj_distrib2 addr_and_0x7F)

lemma write_addr_and_0x80: "((a::int) OR 0x80) AND 0x80 \<noteq> 0"
  by (simp add: bit.conj_disj_distrib2 or_eq_0_iff)

lemma read_one_trace: "trace (snd (read self r 1 w)) = trace w @ bracket self [r, 0]"
  by (simp add: read_def seq_def bind_def cs_eq spi_xfer2_def bracket_def ret_def raise_def 
      split: prod.split list.split)

lemma read_loop_eq:
  assumes "full_duplex (xfer2 self)"
  shows "read_loop self r xs acc w =
     (Inr (acc @ map (\<lambda>rx. rx ! 1) (answers (xfer2 self) (dev w) (map (\<lambda>x. [r + int x, 0]) xs))),
      w\<lparr>dev := after (xfer2 self) (dev w) (map (\<lambda>x. [r + int x, 0]) xs),
        trace := trace w @ concat (map (\<lambda>x. bracket self [r + int x, 0]) xs)\<rparr>)"
proof (induction xs arbitrary: acc w)
  case Nil
  show ?case by (simp add: ret_def)
next
  case (Cons x xs)
  obtain rx d' where x: "xfer2 self (dev w) [r + int x, 0] = (rx, d')"
    by (cases "xfer2 self (dev w) [r + int x, 0]")
  have len: "length rx = 2"
    using assms x by (simp add: full_duplex_def) (metis fst_conv length_Cons list.size(3) numeral_2_eq_2)
  show ?case
    using len
    by (simp add: seq_def bind_def cs_eq spi_xfer2_def Cons.IH bracket_def x)
qed

lemma read_eq:
  assumes "full_duplex (xfer2 self)"
  shows "read self r n w =
     ((if n = 1 then Inr (Single (fst (xfer2 self (dev w) [r, 0]) ! 1))
       else Inr (Many (map (\<lambda>rx. rx ! 1)
               (answers (xfer2 self) (dev w) (map (\<lambda>x. [r + int x, 0]) [0..<nat n]))))),
      w\<lparr>dev := after (xfer2 self) (dev w) (map (\<lambda>x. [r + int x, 0]) [0..<nat n]),
        trace := trace w @ concat (map (\<lambda>x. bracket self [r + int x, 0]) [0..<nat n])\<rparr>)"
  by (simp add: read_def bind_def read_loop_eq [OF assms] ret_def)

lemma sim_full_duplex: "full_duplex sim_xfer2"
  by (auto simp: full_duplex_def sim_xfer2_def split: list.split)

lemma flat_simps [simp]: "flat [] = []" "flat ((r, v) # ps) = r # v # flat ps"
  by (simp_all add: flat_def)

lemma step_events_simps:
  "step_events self (WAIT, v) = [Sleep (of_int v / 1000)]"
  "r \<noteq> WAIT \<Longrightarrow> step_events self (r, v) = bracket self [r OR 0x80, v]"
  by (simp_all add: step_events_def)

lemma bulk_write_flat:
  assumes "\<forall>(r, v) \<in> set ps. r = WAIT \<longrightarrow> 0 \<le> v"
  shows "fst (bulk_write self (flat ps) w) = Inr () \<and>
         trace (snd (bulk_write self (flat ps) w)) = trace w @ concat (map (step_events self) ps)"
  using assms
proof (induction ps arbitrary: w)
  case Nil
  show ?case by (simp add: ret_def)
next
  case (Cons p ps)
  obtain r v where p: "p = (r, v)" by (cases p)
  have ih: "\<And>w'. fst (bulk_write self (flat ps) w') = Inr () \<and>
         trace (snd (bulk_write self (flat ps) w')) = trace w' @ concat (map (step_events self) ps)"
    using Cons by simp
  show ?case
  proof (cases "r = WAIT")
    case True
    then have "0 \<le> v" using Cons.prems p by simp
    then show ?thesis using True ih
      by (simp add: seq_def bind_def time_sleep_def log_def step_events_simps p)
  next
    case False
    then show ?thesis using ih
      by (simp add: seq_def bind_def write_reg_eq step_events_simps p)
  qed
qed

lemma length_answers [simp]: "length (answers xf d txs) = length txs"
  by (induction txs arbitrary: d) simp_all

lemma transactions_brackets [simp]:
  "transactions (concat (map (\<lambda>x. bracket self (f x)) xs)) = map f xs"
  by (induction xs) simp_all

lemma transactions_step_events:
  "transactions (step_events self (r, v)) = (if r = WAIT then [] else [[r OR 0x80, v]])"
  by (simp add: step_events_def)

text \<open>
  \<^bold>\<open>C6.\<close> For an address in \<open>[0, 0x7F]\<close> and a value in \<open>[0, 255]\<close>: a register
  write is exactly one transaction \<open>[addr OR 0x80, value]\<close> (with the chip select around
  it when there is one); a register read is exactly one transaction \<open>[addr, 0x00]\<close> and
  returns the second byte received (the bus giving at least two); and against the simulated
  transport, which stores on a write and answers a read with what is stored, a write
  followed by a read of the same address returns the value written.
\<close>

theorem register_write_read:
  assumes "0 \<le> addr" and "addr \<le> 0x7F" and "0 \<le> v" and "v \<le> 255"
  shows "trace (snd (write_reg self addr v w)) = trace w @ bracket self [addr OR 0x80, v] \<and>
         trace (snd (read self addr 1 w)) = trace w @ bracket self [addr, 0x00] \<and>
         (2 \<le> length (fst (xfer2 self (dev w) [addr, 0x00])) \<longrightarrow>
            fst (read self addr 1 w) = Inr (Single (fst (xfer2 self (dev w) [addr, 0x00]) ! 1))) \<and>
         fst (read (sim_driver p c) addr 1 (snd (write_reg (sim_driver p c) addr v ws)))
           = Inr (Single v)"
proof -
  have rd: "2 \<le> length (fst (xfer2 self (dev w) [addr, 0x00])) \<longrightarrow>
            fst (read self addr 1 w) = Inr (Single (fst (xfer2 self (dev w) [addr, 0x00]) ! 1))"
    using read_one_eq [of self w addr "fst (xfer2 self (dev w) [addr, 0x00])"
        "snd (xfer2 self (dev w) [addr, 0x00])"] by simp
  have "sim_xfer2 ((dev ws)(addr := v)) [addr, 0] = ([0, v], (dev ws)(addr := v))"
    using assms by (simp add: sim_xfer2_def addr_and_0x80)
  then have "fst (read (sim_driver p c) addr 1 (snd (write_reg (sim_driver p c) addr v ws)))
           = Inr (Single v)"
    using assms
    by (subst read_one_eq [where rx = "[0, v]" and d' = "(dev ws)(addr := v)"])
       (simp_all add: write_reg_eq sim_driver_def sim_xfer2_def write_addr_and_0x80
          write_addr_and_0x7F)
  then show ?thesis
    using rd by (simp add: write_reg_eq read_one_trace)
qed

theorem register_write_read_witness:
  "trace (snd (write_reg (sim_driver (Some 8) PMW3901) 0x4E 0xA8 (sim_world (sim_regs []))))
     = [SetValue 8 False, Xfer2 [0xCE, 0xA8], SetValue 8 True] \<and>
   trace (snd (read (sim_driver (Some 8) PMW3901) 0x4E 1 (sim_world (sim_regs []))))
     = [SetValue 8 False, Xfer2 [0x4E, 0x00], SetValue 8 True] \<and>
   fst (read (sim_driver (Some 8) PMW3901) 0x4E 1 (sim_world (sim_regs [(0x4E, 0x3F)])))
     = Inr (Single 0x3F) \<and>
   fst (read (sim_driver (Some 8) PMW3901) 0x4E 1
          (snd (write_reg (sim_driver (Some 8) PMW3901) 0x4E 0xA8 (sim_world (sim_regs [])))))
     = Inr (Single 0xA8)"
  using register_write_read [of "0x4E" "0xA8" "sim_driver (Some 8) PMW3901"
      "sim_world (sim_regs [])" "Some 8" PMW3901 "sim_world (sim_regs [])"]
    register_write_read [of "0x4E" "0xA8" "sim_driver (Some 8) PMW3901"
      "sim_world (sim_regs [(0x4E, 0x3F)])" "Some 8" PMW3901 "sim_world (sim_regs [])"]
  by (simp add: sim_driver_def sim_world_def sim_xfer2_def sim_regs_def bracket_def
      cs_events_def)

text \<open>
  \<^bold>\<open>C10.\<close> On a bus that receives as many bytes as it sends, a read of \<open>count \<ge> 2\<close>
  registers returns a list of exactly \<open>count\<close> values, the second bytes of the answers to
  the transactions \<open>[addr, 0]\<close>, \<open>[addr + 1, 0]\<close>, ..., \<open>[addr + count - 1, 0]\<close>, which
  are the transactions sent; a read with \<open>count = 1\<close> returns the value itself and not a
  list of one value.
\<close>

theorem read_result_shape:
  assumes "full_duplex (xfer2 self)"
  shows "(2 \<le> count \<longrightarrow>
           (\<exists>bs. fst (read self addr count w) = Inr (Many bs) \<and>
                 length bs = nat count \<and>
                 bs = map (\<lambda>rx. rx ! 1)
                        (answers (xfer2 self) (dev w)
                           (map (\<lambda>i. [addr + int i, 0]) [0..<nat count])) \<and>
                 transactions (trace (snd (read self addr count w))) =
                   transactions (trace w) @ map (\<lambda>i. [addr + int i, 0]) [0..<nat count])) \<and>
         (\<exists>b. fst (read self addr 1 w) = Inr (Single b) \<and>
              fst (read self addr 1 w) \<noteq> Inr (Many [b]) \<and>
              b = fst (xfer2 self (dev w) [addr, 0]) ! 1 \<and>
              transactions (trace (snd (read self addr 1 w))) =
                transactions (trace w) @ [[addr, 0]])"
  by (simp add: read_eq [OF assms])

theorem read_result_shape_witness:
  "full_duplex sim_xfer2 \<and>
   fst (read (sim_driver None PMW3901) 0x02 3 (sim_world (sim_regs [(2, 10), (3, 20), (4, 30)])))
     = Inr (Many [10, 20, 30]) \<and>
   transactions (trace (snd (read (sim_driver None PMW3901) 0x02 3
       (sim_world (sim_regs [(2, 10), (3, 20), (4, 30)]))))) = [[2, 0], [3, 0], [4, 0]] \<and>
   fst (read (sim_driver None PMW3901) 0x02 1 (sim_world (sim_regs [(2, 10), (3, 20), (4, 30)])))
     = Inr (Single 10)"
  using read_result_shape [of "sim_driver None PMW3901" 3 "0x02"
      "sim_world (sim_regs [(2, 10), (3, 20), (4, 30)])"] sim_full_duplex
  by (simp add: sim_driver_def sim_world_def sim_xfer2_def sim_regs_def upt_rec)

text \<open>
  \<^bold>\<open>C7.\<close> The sequence player takes the flat list two elements at a time, from the first
  pair to the last, and the trace grows by the events of each pair in that order: a pair
  that starts with the sentinel \<open>WAIT\<close> is one sleep of its second element in
  milliseconds and no transaction; any other pair is the events of one register write of
  that pair, with exactly one transaction. The wait lengths are not negative (a negative
  one makes \<^verbatim>\<open>time.sleep\<close> raise).
\<close>

theorem bulk_write_steps:
  assumes "\<forall>(r, v) \<in> set ps. r = WAIT \<longrightarrow> 0 \<le> v"
  shows "fst (bulk_write self (flat ps) w) = Inr () \<and>
         trace (snd (bulk_write self (flat ps) w)) =
           trace w @ concat (map (step_events self) ps) \<and>
         (\<forall>(r, v) \<in> set ps.
            transactions (step_events self (r, v)) = (if r = WAIT then [] else [[r OR 0x80, v]]) \<and>
            (r = WAIT \<longrightarrow> step_events self (r, v) = [Sleep (of_int v / 1000)]) \<and>
            (r \<noteq> WAIT \<longrightarrow>
               (\<forall>w0. trace (snd (write_reg self r v w0)) = trace w0 @ step_events self (r, v))))"
  using bulk_write_flat [OF assms, of self w]
  by (auto simp: transactions_step_events step_events_simps write_reg_eq)

theorem bulk_write_steps_witness:
  "fst (bulk_write (sim_driver None PMW3901) [0x7F, 0x00, WAIT, 0x0A, 0x58, 0xFF]
         (sim_world (sim_regs []))) = Inr () \<and>
   trace (snd (bulk_write (sim_driver None PMW3901) [0x7F, 0x00, WAIT, 0x0A, 0x58, 0xFF]
         (sim_world (sim_regs [])))) =
     [Xfer2 [0xFF, 0x00], Sleep (1 / 100), Xfer2 [0xD8, 0xFF]]"
  using bulk_write_steps [of "[(0x7F, 0x00), (WAIT, 0x0A), (0x58, 0xFF)]"
      "sim_driver None PMW3901" "sim_world (sim_regs [])"]
  by (simp add: step_events_def bracket_def cs_events_def sim_driver_def sim_world_def WAIT_def)

subsection \<open>Construction\<close>

lemma seq_fst: "fst (m w) = Inr a \<Longrightarrow> fst (seq m n w) = fst (n (snd (m w)))"
  by (cases "m w") (simp add: seq_def bind_def)

lemma bulk_write_ok: "well_formed_seq data \<Longrightarrow> fst (bulk_write self data w) = Inr ()"
proof (induction self data arbitrary: w rule: bulk_write.induct)
  case (1 self)
  show ?case by (simp add: ret_def)
next
  case (2 self register)
  then show ?case by simp
next
  case (3 self register val data)
  then show ?case
    by (auto simp: seq_def bind_def time_sleep_def log_def write_reg_eq)
qed

lemma read_int_fd:
  assumes "full_duplex (xfer2 self)"
  shows "read_int self r w =
     (Inr (fst (xfer2 self (dev w) [r, 0]) ! 1),
      w\<lparr>dev := snd (xfer2 self (dev w) [r, 0]), trace := trace w @ bracket self [r, 0]\<rparr>)"
  by (simp add: read_int_def bind_def read_eq [OF assms] ret_def)

lemma flush_reads_ok:
  assumes "full_duplex (xfer2 self)"
  shows "fst (flush_reads self offsets w) = Inr ()"
  by (induction offsets arbitrary: w) (simp_all add: ret_def seq_def bind_def read_eq [OF assms])

lemma calibrate_ok:
  assumes "full_duplex (xfer2 self)"
  shows "fst (calibrate self w) = Inr ()"
  by (simp add: calibrate_def bind_def read_eq [OF assms] read_int_fd [OF assms] Let_def
      seq_def write_reg_eq ret_def WAIT_def)

lemma well_formed_tails: "well_formed_seq pmw3901_tail" "well_formed_seq paa5100_tail"
  by (simp_all add: pmw3901_tail_def paa5100_tail_def WAIT_def)

lemma secret_sauce_with_ok:
  assumes "full_duplex (xfer2 self)" and "well_formed_seq tail"
  shows "fst (secret_sauce_with tail self w) = Inr ()"
proof -
  have a: "\<And>w. fst (bulk_write self [0x7F, 0x00, 0x55, 0x01, 0x50, 0x07, 0x7F, 0x0E, 0x43, 0x10] w) = Inr ()"
    by (rule bulk_write_ok) (simp add: WAIT_def)
  have b: "\<And>w. fst (bind (read_int self 0x67) (\<lambda>v.
            if v AND 0b10000000 \<noteq> 0 then write_reg self 0x48 0x04
            else write_reg self 0x48 0x02) w) = Inr ()"
    by (simp add: bind_def read_int_fd [OF assms(1)] write_reg_eq)
  have c: "\<And>w. fst (bulk_write self [0x7F, 0x00, 0x51, 0x7B, 0x50, 0x00, 0x55, 0x00, 0x7F, 0x0E] w) = Inr ()"
    by (rule bulk_write_ok) (simp add: WAIT_def)
  show ?thesis
    unfolding secret_sauce_with_def
    by (simp only: seq_fst [OF a] seq_fst [OF b] seq_fst [OF c] seq_fst [OF calibrate_ok [OF assms(1)]]
        bulk_write_ok [OF assms(2)])
qed

lemma secret_sauce_ok:
  assumes "full_duplex (xfer2 self)"
  shows "fst (secret_sauce self w) = Inr ()"
  by (simp add: secret_sauce_def secret_sauce_with_ok [OF assms] well_formed_tails split: chip.split)

lemma power_up_ok:
  assumes "full_duplex (xfer2 self)"
  shows "fst (power_up self w) = Inr ()"
proof -
  have a: "\<And>w. fst ((case spi_cs_gpio self of
            None \<Rightarrow> ret ()
          | Some p \<Rightarrow> seq (set_pin p False) (seq (time_sleep (5 / 100)) (set_pin p True))) w) = Inr ()"
    by (simp add: ret_def seq_def bind_def set_pin_def log_def time_sleep_def split: option.split)
  have b: "\<And>w. fst (write_reg self REG_POWER_UP_RESET 0x5A w) = Inr ()"
    by (simp add: write_reg_eq)
  have c: "\<And>w. fst (time_sleep (2 / 100) w) = Inr ()"
    by (simp add: time_sleep_def log_def)
  show ?thesis
    unfolding power_up_def
    by (simp only: seq_fst [OF a] seq_fst [OF b] seq_fst [OF c] seq_fst [OF flush_reads_ok [OF assms]]
        secret_sauce_ok [OF assms])
qed

lemma check_id_run:
  assumes "xfer2 self (dev w) [0x00, 0] = ([a, product_id], d1)"
    and "xfer2 self d1 [0x01, 0] = ([b, revision], d2)"
  shows "check_id self w =
     ((if product_id = 0x49 \<and> (revision = 0x00 \<or> revision = 0x01) then Inr ()
       else Inl (RuntimeError (InvalidId product_id revision))),
      w\<lparr>dev := d2, trace := trace w @ bracket self [0x00, 0] @ bracket self [0x01, 0]\<rparr>)"
  using assms
  by (simp add: check_id_def get_id_def read_def REG_ID_def bind_def seq_def cs_eq spi_xfer2_def
      upt_rec raise_def ret_def bracket_def)

text \<open>
  \<^bold>\<open>C8.\<close> On a bus that receives as many bytes as it sends, construction gets through
  the reset and the calibration, then reads register 0x00 and register 0x01, one
  transaction each, as product id and revision. It completes exactly when the product id
  is 0x49 and the revision is 0x00 or 0x01; otherwise it raises the \<^verbatim>\<open>RuntimeError\<close>
  that reports the two values, which is the identity mismatch of the specification.
\<close>

theorem init_identity_check:
  assumes "full_duplex (xfer2 self)"
    and "xfer2 self (dev (snd (power_up self w))) [0x00, 0] = ([a, product_id], d1)"
    and "xfer2 self d1 [0x01, 0] = ([b, revision], d2)"
  shows "(fst (init self w) = Inr () \<longleftrightarrow>
            product_id = 0x49 \<and> (revision = 0x00 \<or> revision = 0x01)) \<and>
         (fst (init self w) \<noteq> Inr () \<longrightarrow>
            fst (init self w) = Inl (RuntimeError (InvalidId product_id revision))) \<and>
         transactions (trace (snd (init self w))) =
           transactions (trace (snd (power_up self w))) @ [[0x00, 0], [0x01, 0]]"
proof -
  have "init self w = check_id self (snd (power_up self w))"
    using power_up_ok [OF assms(1), of w]
    by (cases "power_up self w") (simp add: init_def seq_def bind_def)
  then show ?thesis
    by (simp add: check_id_run [OF assms(2,3)])
qed

lemma id_full_duplex: "full_duplex (id_xfer2 p r)"
  by (simp add: full_duplex_def id_xfer2_def)

lemma id_driver_xfer2: "xfer2 (id_driver p r c) = id_xfer2 p r"
  by (simp add: id_driver_def)

lemma id_reads: "id_xfer2 p r u [0x00, 0] = ([0, p], ())" "id_xfer2 p r u [0x01, 0] = ([0, r], ())"
  by (simp_all add: id_xfer2_def)

theorem init_identity_check_witness:
  "fst (init (id_driver 0x49 0x01 PMW3901) unit_world) = Inr () \<and>
   fst (init (id_driver 0x50 0x01 PMW3901) unit_world) = Inl (RuntimeError (InvalidId 0x50 0x01)) \<and>
   fst (init (id_driver 0x49 0x02 PAA5100) unit_world) = Inl (RuntimeError (InvalidId 0x49 0x02))"
proof -
  have fd: "full_duplex (xfer2 (id_driver p r c))" for p r c
    by (simp add: id_driver_xfer2 id_full_duplex)
  have r0: "xfer2 (id_driver p r c) (dev (snd (power_up (id_driver p r c) unit_world))) [0x00, 0]
              = ([0, p], ())" for p r c
    by (simp add: id_driver_xfer2 id_reads)
  have r1: "xfer2 (id_driver p r c) () [0x01, 0] = ([0, r], ())" for p r c
    by (simp add: id_driver_xfer2 id_reads)
  have "fst (init (id_driver 0x49 0x01 PMW3901) unit_world) = Inr ()"
    using init_identity_check [OF fd r0 r1, of "0x49" "0x01" PMW3901, THEN conjunct1] by simp
  moreover have "fst (init (id_driver 0x50 0x01 PMW3901) unit_world)
                   = Inl (RuntimeError (InvalidId 0x50 0x01))"
    using init_identity_check [OF fd r0 r1, of "0x50" "0x01" PMW3901, THEN conjunct1]
      init_identity_check [OF fd r0 r1, of "0x50" "0x01" PMW3901, THEN conjunct2, THEN conjunct1]
    by simp
  moreover have "fst (init (id_driver 0x49 0x02 PAA5100) unit_world)
                   = Inl (RuntimeError (InvalidId 0x49 0x02))"
    using init_identity_check [OF fd r0 r1, of "0x49" "0x02" PAA5100, THEN conjunct1]
      init_identity_check [OF fd r0 r1, of "0x49" "0x02" PAA5100, THEN conjunct2, THEN conjunct1]
    by simp
  ultimately show ?thesis by simp
qed

subsection \<open>Polling\<close>

lemma all_from:
  "(\<forall>j. k0 \<le> j \<and> j < k \<longrightarrow> P j) \<longleftrightarrow> (k0 < k \<longrightarrow> P k0) \<and> (\<forall>j. Suc k0 \<le> j \<and> j < k \<longrightarrow> P j)"
proof
  assume a: "\<forall>j. k0 \<le> j \<and> j < k \<longrightarrow> P j"
  show "(k0 < k \<longrightarrow> P k0) \<and> (\<forall>j. Suc k0 \<le> j \<and> j < k \<longrightarrow> P j)"
    using a by (simp add: Suc_le_eq)
next
  assume b: "(k0 < k \<longrightarrow> P k0) \<and> (\<forall>j. Suc k0 \<le> j \<and> j < k \<longrightarrow> P j)"
  show "\<forall>j. k0 \<le> j \<and> j < k \<longrightarrow> P j"
  proof (intro allI impI)
    fix j assume j: "k0 \<le> j \<and> j < k"
    show "P j"
    proof (cases "j = k0")
      case True
      then show ?thesis using b j by simp
    next
      case False
      then have "Suc k0 \<le> j" using j by simp
      then show ?thesis using b j by simp
    qed
  qed
qed

lemma poll_Inl:
  "poll fuel first second k0 = Some (Inl k) \<longleftrightarrow>
     k0 \<le> k \<and> k < k0 + fuel \<and> first k \<and> (\<forall>j. k0 \<le> j \<and> j < k \<longrightarrow> \<not> first j \<and> \<not> second j)"
proof (induction fuel arbitrary: k0)
  case 0
  show ?case by simp
next
  case (Suc fuel)
  have split: "(\<forall>j. k0 \<le> j \<and> j < k \<longrightarrow> \<not> first j \<and> \<not> second j) \<longleftrightarrow>
      (k0 < k \<longrightarrow> \<not> first k0 \<and> \<not> second k0) \<and>
      (\<forall>j. Suc k0 \<le> j \<and> j < k \<longrightarrow> \<not> first j \<and> \<not> second j)"
    by (rule all_from)
  show ?case
  proof (cases "first k0")
    case True
    have "k = k0" if "k0 \<le> k" and "k0 < k \<longrightarrow> \<not> first k0 \<and> \<not> second k0"
      using that True by (cases "k0 < k") simp_all
    then show ?thesis
      unfolding split using True by auto
  next
    case f: False
    show ?thesis
    proof (cases "second k0")
      case True
      have "\<not> (k0 \<le> k \<and> first k \<and> (k0 < k \<longrightarrow> \<not> first k0 \<and> \<not> second k0))"
        using True f by (cases "k0 < k") auto
      then show ?thesis
        unfolding split using True f by auto
    next
      case False
      have "k0 \<le> k \<and> first k \<longleftrightarrow> Suc k0 \<le> k \<and> first k"
        using f by (cases "k = k0") auto
      then show ?thesis
        unfolding split using False f Suc.IH [of "Suc k0"] by auto
    qed
  qed
qed

lemma poll_Inr:
  "poll fuel first second k0 = Some (Inr k) \<longleftrightarrow>
     k0 \<le> k \<and> k < k0 + fuel \<and> \<not> first k \<and> second k \<and>
     (\<forall>j. k0 \<le> j \<and> j < k \<longrightarrow> \<not> first j \<and> \<not> second j)"
proof (induction fuel arbitrary: k0)
  case 0
  show ?case by simp
next
  case (Suc fuel)
  have split: "(\<forall>j. k0 \<le> j \<and> j < k \<longrightarrow> \<not> first j \<and> \<not> second j) \<longleftrightarrow>
      (k0 < k \<longrightarrow> \<not> first k0 \<and> \<not> second k0) \<and>
      (\<forall>j. Suc k0 \<le> j \<and> j < k \<longrightarrow> \<not> first j \<and> \<not> second j)"
    by (rule all_from)
  show ?case
  proof (cases "first k0")
    case True
    have "\<not> (k0 \<le> k \<and> \<not> first k \<and> (k0 < k \<longrightarrow> \<not> first k0 \<and> \<not> second k0))"
      using True by (cases "k0 < k") auto
    then show ?thesis
      unfolding split using True by auto
  next
    case f: False
    show ?thesis
    proof (cases "second k0")
      case True
      have "k = k0" if "k0 \<le> k" and "k0 < k \<longrightarrow> \<not> first k0 \<and> \<not> second k0"
        using that True by (cases "k0 < k") simp_all
      then show ?thesis
        unfolding split using True f by auto
    next
      case False
      have "k0 \<le> k \<and> second k \<longleftrightarrow> Suc k0 \<le> k \<and> second k"
        using False by (cases "k = k0") auto
      then show ?thesis
        unfolding split using False f Suc.IH [of "Suc k0"] by auto
    qed
  qed
qed

lemma poll_None:
  "poll fuel first second k0 = None \<longleftrightarrow>
     (\<forall>j. k0 \<le> j \<and> j < k0 + fuel \<longrightarrow> \<not> first j \<and> \<not> second j)"
proof (induction fuel arbitrary: k0)
  case 0
  show ?case by auto
next
  case (Suc fuel)
  have split: "(\<forall>j. k0 \<le> j \<and> j < k0 + Suc fuel \<longrightarrow> \<not> first j \<and> \<not> second j) \<longleftrightarrow>
      (k0 < k0 + Suc fuel \<longrightarrow> \<not> first k0 \<and> \<not> second k0) \<and>
      (\<forall>j. Suc k0 \<le> j \<and> j < k0 + Suc fuel \<longrightarrow> \<not> first j \<and> \<not> second j)"
    by (rule all_from)
  show ?case
    unfolding split using Suc.IH [of "Suc k0"] by simp
qed

lemma poll_outcome:
  assumes "map_option fst r =
             map_option (case_sum (\<lambda>k. Inl E) (\<lambda>k. Inr (D k))) (poll fuel first second 0)"
  shows "((\<exists>w'. r = Some (Inl e, w')) \<longleftrightarrow>
            e = E \<and> (\<exists>k<fuel. first k \<and> (\<forall>j<k. \<not> first j \<and> \<not> second j)))"
    and "((\<exists>w'. r = Some (Inr v, w')) \<longleftrightarrow>
            (\<exists>k<fuel. \<not> first k \<and> second k \<and> (\<forall>j<k. \<not> first j \<and> \<not> second j) \<and> v = D k))"
    and "(r = None \<longleftrightarrow> (\<forall>k<fuel. \<not> first k \<and> \<not> second k))"
proof -
  have l: "(\<exists>k<fuel. first k \<and> (\<forall>j<k. \<not> first j \<and> \<not> second j)) \<longleftrightarrow>
           (\<exists>k. poll fuel first second 0 = Some (Inl k))"
    by (simp add: poll_Inl)
  have r: "(\<exists>k<fuel. \<not> first k \<and> second k \<and> (\<forall>j<k. \<not> first j \<and> \<not> second j) \<and> v = D k) \<longleftrightarrow>
           (\<exists>k. poll fuel first second 0 = Some (Inr k) \<and> v = D k)"
    by (simp add: poll_Inr)
  have n: "(\<forall>k<fuel. \<not> first k \<and> \<not> second k) \<longleftrightarrow> poll fuel first second 0 = None"
    by (simp add: poll_None)
  have a: "(\<exists>w'. r = Some (x, w')) \<longleftrightarrow> map_option fst r = Some x" for x
    by (cases r) auto
  show "((\<exists>w'. r = Some (Inl e, w')) \<longleftrightarrow>
            e = E \<and> (\<exists>k<fuel. first k \<and> (\<forall>j<k. \<not> first j \<and> \<not> second j)))"
    unfolding l a assms
    by (cases "poll fuel first second 0") (auto split: sum.splits)
  show "((\<exists>w'. r = Some (Inr v, w')) \<longleftrightarrow>
            (\<exists>k<fuel. \<not> first k \<and> second k \<and> (\<forall>j<k. \<not> first j \<and> \<not> second j) \<and> v = D k))"
    unfolding r a assms
    by (cases "poll fuel first second 0") (auto split: sum.splits)
  show "(r = None \<longleftrightarrow> (\<forall>k<fuel. \<not> first k \<and> \<not> second k))"
    unfolding n using assms
    by (cases "poll fuel first second 0"; cases r) auto
qed

subsection \<open>The scripted sensor\<close>

lemma script_spi_bytes: "spi_bytes script_xfer2"
  by (auto simp: spi_bytes_def script_xfer2_def is_byte_def list_all_iff split: list.split)

lemma script_driver_xfer2: "xfer2 script_driver = script_xfer2"
  by (simp add: script_driver_def)

lemma script_world_sel:
  "dev (script_world s) = s" "ticks (script_world s) = 0" "clock (script_world s) n = of_nat n"
  by (simp_all add: script_world_def)

lemma script_xfer2_simps:
  "script_xfer2 [] tx = (map (\<lambda>b. 0) tx, [])"
  "script_xfer2 (rx # rest) tx =
     (if length rx = length tx \<and> list_all is_byte rx then rx else map (\<lambda>b. 0) tx, rest)"
  by (simp_all add: script_xfer2_def)

subsection \<open>Burst read\<close>

text \<open>
  The decoding of the code, by arithmetic on the two bytes, is the signed 16-bit
  little-endian number.
\<close>

lemma int16_le_sint:
  assumes "is_byte lo" "is_byte hi"
  shows "int16_le lo hi = sint16_le lo hi"
proof -
  have b: "0 \<le> lo + 256 * hi" "lo + 256 * hi < 65536"
    using assms by (simp_all add: is_byte_def)
  have "sint16_le lo hi = (lo + 256 * hi + 2 ^ 15) mod 2 ^ 16 - 2 ^ 15"
    unfolding sint16_le_def by (simp only: int_word_sint) simp
  also have "\<dots> = (if lo + 256 * hi < 32768 then lo + 256 * hi else lo + 256 * hi - 65536)"
  proof (cases "lo + 256 * hi < 32768")
    case True
    then show ?thesis using b by (simp add: mod_pos_pos_trivial)
  next
    case False
    then have "(lo + 256 * hi + 2 ^ 15) mod 2 ^ 16 = lo + 256 * hi - 32768"
      using b by (simp add: mod_pos_geq mod_pos_pos_trivial)
    then show ?thesis using False by simp
  qed
  finally show ?thesis by (simp add: int16_le_def Let_def)
qed

lemma length_burst_tx [simp]: "length burst_tx = 13"
  by (simp add: burst_tx_def)

lemma burst_transfer_eq:
  "burst_transfer self w =
     (Inr (fst (xfer2 self (dev w) burst_tx)),
      w\<lparr>dev := snd (xfer2 self (dev w) burst_tx), trace := trace w @ bracket self burst_tx\<rparr>)"
  by (simp add: burst_transfer_def seq_def bind_def cs_eq spi_xfer2_def bracket_def ret_def
      burst_tx_def split: prod.split)

lemma unpack_burst_eq:
  assumes "length rx = 13" and "list_all is_byte rx"
  shows "unpack_burst rx =
     Inr \<lparr>dr = rx ! 1, obs = rx ! 2,
          delta_x = int16_le (rx ! 3) (rx ! 4), delta_y = int16_le (rx ! 5) (rx ! 6),
          quality = rx ! 7, raw_sum = rx ! 8, raw_max = rx ! 9, raw_min = rx ! 10,
          shutter_upper = rx ! 11, shutter_lower = rx ! 12\<rparr>"
proof -
  have "list_all (\<lambda>b. 0 \<le> b \<and> b < 256) rx"
    using assms(2) by (simp add: is_byte_def [abs_def])
  then show ?thesis using assms(1) by (simp add: unpack_burst_def bytearray_def)
qed

lemma burst_valid_iff:
  "(rx ! 1 AND 0x80 \<noteq> 0 \<and> \<not> (rx ! 7 < 0x19 \<and> rx ! 11 = 0x1F)) = burst_valid rx"
  unfolding burst_valid_def spec_valid_def bit7_iff by simp

lemma list_all_nth: "list_all P xs \<Longrightarrow> n < length xs \<Longrightarrow> P (xs ! n)"
  by (simp add: list_all_length)

lemma get_motion_loop_step:
  assumes "clock w (ticks w) - t0 < timeout"
    and "xfer2 self (dev w) burst_tx = (rx, d')"
    and "length rx = 13" and "list_all is_byte rx"
  shows "get_motion_loop (Suc fuel) self timeout t0 w =
     (if burst_valid rx
      then Some (Inr (sint16_le (rx ! 3) (rx ! 4), sint16_le (rx ! 5) (rx ! 6)),
                 w\<lparr>ticks := Suc (ticks w), dev := d', trace := trace w @ bracket self burst_tx\<rparr>)
      else get_motion_loop fuel self timeout t0
             (w\<lparr>ticks := Suc (ticks w), dev := d',
                trace := trace w @ bracket self burst_tx @ [Sleep (1 / 1000)]\<rparr>))"
proof -
  have x: "int16_le (rx ! 3) (rx ! 4) = sint16_le (rx ! 3) (rx ! 4)"
    using assms(3,4) by (intro int16_le_sint list_all_nth [of is_byte rx]) simp_all
  have y: "int16_le (rx ! 5) (rx ! 6) = sint16_le (rx ! 5) (rx ! 6)"
    using assms(3,4) by (intro int16_le_sint list_all_nth [of is_byte rx]) simp_all
  have "get_motion_loop (Suc fuel) self timeout t0 w =
     (if rx ! 1 AND 0x80 \<noteq> 0 \<and> \<not> (rx ! 7 < 0x19 \<and> rx ! 11 = 0x1F)
      then Some (Inr (int16_le (rx ! 3) (rx ! 4), int16_le (rx ! 5) (rx ! 6)),
                 w\<lparr>ticks := Suc (ticks w), dev := d', trace := trace w @ bracket self burst_tx\<rparr>)
      else get_motion_loop fuel self timeout t0
             (w\<lparr>ticks := Suc (ticks w), dev := d',
                trace := trace w @ bracket self burst_tx @ [Sleep (1 / 1000)]\<rparr>))"
    using assms
    by (simp add: time_time_def burst_transfer_eq unpack_burst_eq time_sleep_def log_def)
  then show ?thesis
    unfolding burst_valid_iff x y .
qed

lemma get_motion_loop_expired:
  assumes "\<not> clock w (ticks w) - t0 < timeout"
  shows "get_motion_loop (Suc fuel) self timeout t0 w =
           Some (Inl (RuntimeError MotionTimeout), w\<lparr>ticks := Suc (ticks w)\<rparr>)"
  using assms by (simp add: time_time_def)

declare get_motion_loop.simps [simp del]

text \<open>
  \<^bold>\<open>C3.\<close> In a round of the burst read that the deadline lets through, a 13-byte answer
  is accepted, and its two deltas are returned at once, exactly when the validity rule of
  the specification holds of it: bit 7 of the status byte (byte 1) is set, and not both the
  quality (byte 7) is below 0x19 and the upper shutter byte (byte 11) is 0x1F. A rejected
  answer is followed by a sleep of a millisecond and the next round. In particular, with
  the data-ready bit set, quality 0x18 with shutter 0x1F is rejected and quality 0x19 with
  shutter 0x1F is accepted, and without the bit every answer is rejected.
\<close>

theorem burst_sample_accepted:
  assumes "clock w (ticks w) - t_start < timeout"
    and "xfer2 self (dev w) burst_tx = (rx, d')"
    and "length rx = 13" and "list_all is_byte rx"
  shows "get_motion_loop (Suc fuel) self timeout t_start w =
     (if spec_valid (bit (rx ! 1) 7) (rx ! 7) (rx ! 11)
      then Some (Inr (sint16_le (rx ! 3) (rx ! 4), sint16_le (rx ! 5) (rx ! 6)),
                 w\<lparr>ticks := Suc (ticks w), dev := d', trace := trace w @ bracket self burst_tx\<rparr>)
      else get_motion_loop fuel self timeout t_start
             (w\<lparr>ticks := Suc (ticks w), dev := d',
                trace := trace w @ bracket self burst_tx @ [Sleep (1 / 1000)]\<rparr>)) \<and>
     (bit (rx ! 1) 7 \<and> rx ! 7 = 0x18 \<and> rx ! 11 = 0x1F \<longrightarrow>
        \<not> spec_valid (bit (rx ! 1) 7) (rx ! 7) (rx ! 11)) \<and>
     (bit (rx ! 1) 7 \<and> rx ! 7 = 0x19 \<and> rx ! 11 = 0x1F \<longrightarrow>
        spec_valid (bit (rx ! 1) 7) (rx ! 7) (rx ! 11)) \<and>
     (\<not> bit (rx ! 1) 7 \<longrightarrow> \<not> spec_valid (bit (rx ! 1) 7) (rx ! 7) (rx ! 11))"
  using get_motion_loop_step [OF assms, of fuel]
  by (simp add: burst_valid_def spec_valid_def del: One_nat_def)

theorem burst_sample_accepted_witness:
  "map_option fst (get_motion_loop (Suc 0) script_driver 10 0
      (script_world [[0, 0x80, 0, 0xFE, 0xFF, 0x03, 0x00, 0x19, 0, 0, 0, 0x1F, 0]]))
     = Some (Inr (- 2, 3)) \<and>
   get_motion_loop (Suc 0) script_driver 10 0
      (script_world [[0, 0x80, 0, 0xFE, 0xFF, 0x03, 0x00, 0x18, 0, 0, 0, 0x1F, 0]]) = None \<and>
   get_motion_loop (Suc 0) script_driver 10 0
      (script_world [[0, 0x7F, 0, 0xFE, 0xFF, 0x03, 0x00, 0x40, 0, 0, 0, 0x10, 0]]) = None"
proof -
  have x: "xfer2 script_driver (dev (script_world [rx])) burst_tx = (rx, [])"
    if "length rx = 13" and "list_all is_byte rx" for rx
    using that by (simp add: script_driver_xfer2 script_world_sel script_xfer2_simps)
  have t: "clock (script_world s) (ticks (script_world s)) - 0 < 10" for s
    by (simp add: script_world_sel)
  have a: "length [0, 0x80, 0, 0xFE, 0xFF, 0x03, 0x00, 0x19, 0, 0, 0, 0x1F, 0 :: int] = 13"
    "list_all is_byte [0, 0x80, 0, 0xFE, 0xFF, 0x03, 0x00, 0x19, 0, 0, 0, 0x1F, 0]"
    by (simp_all add: is_byte_def)
  have b: "length [0, 0x80, 0, 0xFE, 0xFF, 0x03, 0x00, 0x18, 0, 0, 0, 0x1F, 0 :: int] = 13"
    "list_all is_byte [0, 0x80, 0, 0xFE, 0xFF, 0x03, 0x00, 0x18, 0, 0, 0, 0x1F, 0]"
    by (simp_all add: is_byte_def)
  have c: "length [0, 0x7F, 0, 0xFE, 0xFF, 0x03, 0x00, 0x40, 0, 0, 0, 0x10, 0 :: int] = 13"
    "list_all is_byte [0, 0x7F, 0, 0xFE, 0xFF, 0x03, 0x00, 0x40, 0, 0, 0, 0x10, 0]"
    by (simp_all add: is_byte_def)
  show ?thesis
    using burst_sample_accepted [OF t x [OF a] a, of 0, THEN conjunct1]
      burst_sample_accepted [OF t x [OF b] b, of 0, THEN conjunct1]
      burst_sample_accepted [OF t x [OF c] c, of 0, THEN conjunct1]
    by (simp add: spec_valid_def sint16_le_def get_motion_loop.simps)
qed

text \<open>The loop of the burst read is a poll of the clock and of the sensor.\<close>

lemma after_append: "after xf d (txs @ tys) = after xf (after xf d txs) tys"
  by (induction txs arbitrary: d) simp_all

lemma after_replicate_Suc:
  "after xf d (replicate (Suc k) tx) = snd (xf (after xf d (replicate k tx)) tx)"
proof -
  have "replicate (Suc k) tx = replicate k tx @ [tx]"
    by (simp add: replicate_append_same)
  then show ?thesis by (simp only: after_append) simp
qed

lemma spi_bytes_burst:
  assumes "spi_bytes (xfer2 self)"
  shows "length (fst (xfer2 self d burst_tx)) = 13" "list_all is_byte (fst (xfer2 self d burst_tx))"
  using assms by (simp_all add: spi_bytes_def)

lemma get_motion_loop_poll:
  assumes "spi_bytes (xfer2 self)"
    and "ticks w' = ticks w + i" and "clock w' = clock w"
    and "dev w' = after (xfer2 self) (dev w) (replicate i burst_tx)"
  shows "map_option fst (get_motion_loop fuel self timeout t0 w') =
         map_option
           (case_sum (\<lambda>k. Inl (RuntimeError MotionTimeout))
              (\<lambda>k. Inr (sint16_le (burst_sample self (dev w) k ! 3) (burst_sample self (dev w) k ! 4),
                         sint16_le (burst_sample self (dev w) k ! 5) (burst_sample self (dev w) k ! 6))))
           (poll fuel (\<lambda>k. \<not> clock w (ticks w + k) - t0 < timeout)
              (\<lambda>k. burst_valid (burst_sample self (dev w) k)) i)"
  using assms(2-4)
proof (induction fuel arbitrary: i w')
  case 0
  show ?case by (simp add: get_motion_loop.simps)
next
  case (Suc fuel)
  define rx where "rx = fst (xfer2 self (dev w') burst_tx)"
  define d' where "d' = snd (xfer2 self (dev w') burst_tx)"
  have x: "xfer2 self (dev w') burst_tx = (rx, d')" by (simp add: rx_def d'_def)
  have rx: "rx = burst_sample self (dev w) i"
    by (simp add: rx_def burst_sample_def Suc.prems)
  have len: "length rx = 13" "list_all is_byte rx"
    using spi_bytes_burst [OF assms(1)] by (simp_all add: rx_def)
  show ?case
  proof (cases "clock w (ticks w + i) - t0 < timeout")
    case False
    then have "\<not> clock w' (ticks w') - t0 < timeout" by (simp add: Suc.prems)
    from get_motion_loop_expired [OF this] False show ?thesis by simp
  next
    case True
    then have t: "clock w' (ticks w') - t0 < timeout" by (simp add: Suc.prems)
    note step = get_motion_loop_step [OF t x len, of fuel]
    show ?thesis
    proof (cases "burst_valid rx")
      case v: True
      then show ?thesis using True step by (simp add: rx [symmetric])
    next
      case v: False
      define w'' where "w'' = w'\<lparr>ticks := Suc (ticks w'), dev := d',
                trace := trace w' @ bracket self burst_tx @ [Sleep (1 / 1000)]\<rparr>"
      have ih: "map_option fst (get_motion_loop fuel self timeout t0 w'') =
         map_option
           (case_sum (\<lambda>k. Inl (RuntimeError MotionTimeout))
              (\<lambda>k. Inr (sint16_le (burst_sample self (dev w) k ! 3) (burst_sample self (dev w) k ! 4),
                         sint16_le (burst_sample self (dev w) k ! 5) (burst_sample self (dev w) k ! 6))))
           (poll fuel (\<lambda>k. \<not> clock w (ticks w + k) - t0 < timeout)
              (\<lambda>k. burst_valid (burst_sample self (dev w) k)) (Suc i))"
        by (rule Suc.IH) (simp_all add: w''_def Suc.prems after_replicate_Suc d'_def del: replicate_Suc)
      have "get_motion_loop (Suc fuel) self timeout t0 w' = get_motion_loop fuel self timeout t0 w''"
        using step v by (simp add: w''_def)
      then show ?thesis
        using True v ih by (simp add: rx [symmetric])
    qed
  qed
qed

lemma get_motion_outcome:
  assumes "spi_bytes (xfer2 self)"
  shows "map_option fst (get_motion fuel self timeout w) =
         map_option
           (case_sum (\<lambda>k. Inl (RuntimeError MotionTimeout))
              (\<lambda>k. Inr (sint16_le (burst_sample self (dev w) k ! 3) (burst_sample self (dev w) k ! 4),
                         sint16_le (burst_sample self (dev w) k ! 5) (burst_sample self (dev w) k ! 6))))
           (poll fuel (deadline_reached w timeout)
              (\<lambda>k. burst_valid (burst_sample self (dev w) k)) 0)"
proof -
  have late: "(\<lambda>k. \<not> clock (w\<lparr>ticks := Suc (ticks w)\<rparr>) (ticks (w\<lparr>ticks := Suc (ticks w)\<rparr>) + k)
                   - clock w (ticks w) < timeout) = deadline_reached w timeout"
    by (simp add: deadline_reached_def [abs_def] not_less)
  show ?thesis
    using get_motion_loop_poll [OF assms, of "w\<lparr>ticks := Suc (ticks w)\<rparr>"
        "w\<lparr>ticks := Suc (ticks w)\<rparr>" 0 fuel timeout "clock w (ticks w)"]
    unfolding late
    by (simp add: get_motion_def time_time_def)
qed

subsection \<open>Slow read\<close>

lemma spi_bytes_full_duplex: "spi_bytes xf \<Longrightarrow> full_duplex xf"
  by (simp add: spi_bytes_def full_duplex_def)

lemma slow_txs_eq: "map (\<lambda>x. [REG_DATA_READY + int x, 0]) [0..<nat 5] = slow_txs"
  by (simp add: slow_txs_def REG_DATA_READY_def upt_rec)

lemma answers_second_bytes:
  assumes "spi_bytes xf" and "list_all (\<lambda>tx. length tx = 2) txs"
  shows "list_all is_byte (map (\<lambda>rx. rx ! 1) (answers xf d txs))"
  using assms(2)
proof (induction txs arbitrary: d)
  case Nil
  show ?case by simp
next
  case (Cons tx txs)
  have "length (fst (xf d tx)) = 2" "list_all is_byte (fst (xf d tx))"
    using assms(1) Cons.prems by (simp_all add: spi_bytes_def)
  then have "is_byte (fst (xf d tx) ! 1)"
    by (intro list_all_nth [of is_byte]) simp_all
  then show ?case using Cons by simp
qed

lemma read_slow_eq:
  assumes "spi_bytes (xfer2 self)"
  shows "read self REG_DATA_READY 5 w =
     (Inr (Many (slow_sample self (dev w) 0)),
      w\<lparr>dev := after (xfer2 self) (dev w) slow_txs,
        trace := trace w @ concat (map (bracket self) slow_txs)\<rparr>)"
proof -
  have "concat (map (\<lambda>x. bracket self [REG_DATA_READY + int x, 0]) [0..<nat 5]) =
        concat (map (bracket self) (map (\<lambda>x. [REG_DATA_READY + int x, 0]) [0..<nat 5]))"
    by (simp only: map_map comp_def)
  then show ?thesis
    by (simp only: read_eq [OF spi_bytes_full_duplex [OF assms]] slow_txs_eq slow_sample_def)
       (simp add: )
qed

lemma unpack_slow_eq:
  assumes "length s = 5" and "list_all is_byte s"
  shows "unpack_slow (Many s) =
           Inr (s ! 0, sint16_le (s ! 1) (s ! 2), sint16_le (s ! 3) (s ! 4))"
proof -
  have a: "list_all (\<lambda>b. 0 \<le> b \<and> b < 256) s"
    using assms(2) by (simp add: is_byte_def [abs_def])
  have x: "int16_le (s ! 1) (s ! 2) = sint16_le (s ! 1) (s ! 2)"
    using assms by (intro int16_le_sint list_all_nth [of is_byte s]) simp_all
  have y: "int16_le (s ! 3) (s ! 4) = sint16_le (s ! 3) (s ! 4)"
    using assms by (intro int16_le_sint list_all_nth [of is_byte s]) simp_all
  have "unpack_slow (Many s) = Inr (s ! 0, int16_le (s ! 1) (s ! 2), int16_le (s ! 3) (s ! 4))"
    using a assms(1) by (simp add: unpack_slow_def bytearray_of_def bytearray_def)
  then show ?thesis unfolding x y .
qed

lemma slow_sample_bytes:
  assumes "spi_bytes (xfer2 self)"
  shows "length (slow_sample self d k) = 5" "list_all is_byte (slow_sample self d k)"
proof -
  show "length (slow_sample self d k) = 5"
    by (simp add: slow_sample_def) (simp add: slow_txs_def)
  show "list_all is_byte (slow_sample self d k)"
    unfolding slow_sample_def
    by (rule answers_second_bytes [OF assms]) (simp add: slow_txs_def)
qed

lemma get_motion_slow_loop_step:
  assumes "spi_bytes (xfer2 self)" and "clock w (ticks w) - t0 < timeout"
  shows "get_motion_slow_loop (Suc fuel) self timeout t0 w =
     (if slow_valid (slow_sample self (dev w) 0)
      then Some (Inr (sint16_le (slow_sample self (dev w) 0 ! 1) (slow_sample self (dev w) 0 ! 2),
                      sint16_le (slow_sample self (dev w) 0 ! 3) (slow_sample self (dev w) 0 ! 4)),
                 w\<lparr>ticks := Suc (ticks w), dev := after (xfer2 self) (dev w) slow_txs,
                   trace := trace w @ concat (map (bracket self) slow_txs)\<rparr>)
      else get_motion_slow_loop fuel self timeout t0
             (w\<lparr>ticks := Suc (ticks w), dev := after (xfer2 self) (dev w) slow_txs,
                trace := trace w @ concat (map (bracket self) slow_txs) @ [Sleep (1 / 1000)]\<rparr>))"
  using assms(2)
  by (simp add: time_time_def read_slow_eq [OF assms(1)] unpack_slow_eq [OF slow_sample_bytes [OF assms(1)]]
      time_sleep_def log_def slow_valid_def bit7_iff)

lemma get_motion_slow_loop_expired:
  assumes "\<not> clock w (ticks w) - t0 < timeout"
  shows "get_motion_slow_loop (Suc fuel) self timeout t0 w =
           Some (Inl (RuntimeError MotionTimeout), w\<lparr>ticks := Suc (ticks w)\<rparr>)"
  using assms by (simp add: time_time_def)

declare get_motion_slow_loop.simps [simp del]

lemma slow_sample_shift:
  "slow_sample self (after (xfer2 self) d (concat (replicate i slow_txs))) 0 = slow_sample self d i"
  by (simp add: slow_sample_def)

lemma after_slow_Suc:
  "after xf (after xf d (concat (replicate i txs))) txs = after xf d (concat (replicate (Suc i) txs))"
proof -
  have "concat (replicate (Suc i) txs) = concat (replicate i txs) @ txs"
    by (induction i) simp_all
  then show ?thesis by (simp only: after_append)
qed

lemma get_motion_slow_loop_poll:
  assumes "spi_bytes (xfer2 self)"
    and "ticks w' = ticks w + i" and "clock w' = clock w"
    and "dev w' = after (xfer2 self) (dev w) (concat (replicate i slow_txs))"
  shows "map_option fst (get_motion_slow_loop fuel self timeout t0 w') =
         map_option
           (case_sum (\<lambda>k. Inl (RuntimeError MotionTimeout))
              (\<lambda>k. Inr (sint16_le (slow_sample self (dev w) k ! 1) (slow_sample self (dev w) k ! 2),
                         sint16_le (slow_sample self (dev w) k ! 3) (slow_sample self (dev w) k ! 4))))
           (poll fuel (\<lambda>k. \<not> clock w (ticks w + k) - t0 < timeout)
              (\<lambda>k. slow_valid (slow_sample self (dev w) k)) i)"
  using assms(2-4)
proof (induction fuel arbitrary: i w')
  case 0
  show ?case by (simp add: get_motion_slow_loop.simps)
next
  case (Suc fuel)
  have s: "slow_sample self (dev w') 0 = slow_sample self (dev w) i"
    by (simp only: Suc.prems slow_sample_shift)
  show ?case
  proof (cases "clock w (ticks w + i) - t0 < timeout")
    case False
    then have "\<not> clock w' (ticks w') - t0 < timeout" by (simp add: Suc.prems)
    from get_motion_slow_loop_expired [OF this] False show ?thesis by (simp del: One_nat_def)
  next
    case True
    then have t: "clock w' (ticks w') - t0 < timeout" by (simp add: Suc.prems)
    note step = get_motion_slow_loop_step [OF assms(1) t, of fuel, unfolded s]
    show ?thesis
    proof (cases "slow_valid (slow_sample self (dev w) i)")
      case v: True
      then show ?thesis using True step by (simp del: One_nat_def)
    next
      case v: False
      define w'' where "w'' = w'\<lparr>ticks := Suc (ticks w'), dev := after (xfer2 self) (dev w') slow_txs,
                trace := trace w' @ concat (map (bracket self) slow_txs) @ [Sleep (1 / 1000)]\<rparr>"
      have ih: "map_option fst (get_motion_slow_loop fuel self timeout t0 w'') =
         map_option
           (case_sum (\<lambda>k. Inl (RuntimeError MotionTimeout))
              (\<lambda>k. Inr (sint16_le (slow_sample self (dev w) k ! 1) (slow_sample self (dev w) k ! 2),
                         sint16_le (slow_sample self (dev w) k ! 3) (slow_sample self (dev w) k ! 4))))
           (poll fuel (\<lambda>k. \<not> clock w (ticks w + k) - t0 < timeout)
              (\<lambda>k. slow_valid (slow_sample self (dev w) k)) (Suc i))"
        by (rule Suc.IH) (simp_all add: w''_def Suc.prems after_slow_Suc del: replicate_Suc)
      have "get_motion_slow_loop (Suc fuel) self timeout t0 w' =
            get_motion_slow_loop fuel self timeout t0 w''"
        using step v by (simp add: w''_def)
      then show ?thesis
        using True v ih by (simp del: One_nat_def)
    qed
  qed
qed

lemma get_motion_slow_outcome:
  assumes "spi_bytes (xfer2 self)"
  shows "map_option fst (get_motion_slow fuel self timeout w) =
         map_option
           (case_sum (\<lambda>k. Inl (RuntimeError MotionTimeout))
              (\<lambda>k. Inr (sint16_le (slow_sample self (dev w) k ! 1) (slow_sample self (dev w) k ! 2),
                         sint16_le (slow_sample self (dev w) k ! 3) (slow_sample self (dev w) k ! 4))))
           (poll fuel (deadline_reached w timeout)
              (\<lambda>k. slow_valid (slow_sample self (dev w) k)) 0)"
proof -
  have late: "(\<lambda>k. \<not> clock (w\<lparr>ticks := Suc (ticks w)\<rparr>) (ticks (w\<lparr>ticks := Suc (ticks w)\<rparr>) + k)
                   - clock w (ticks w) < timeout) = deadline_reached w timeout"
    by (simp add: deadline_reached_def [abs_def] not_less)
  show ?thesis
    using get_motion_slow_loop_poll [OF assms, of "w\<lparr>ticks := Suc (ticks w)\<rparr>"
        "w\<lparr>ticks := Suc (ticks w)\<rparr>" 0 fuel timeout "clock w (ticks w)"]
    unfolding late
    by (simp add: get_motion_slow_def time_time_def del: One_nat_def)
qed

text \<open>
  \<^bold>\<open>C9.\<close> On a bus that answers every transaction with as many bytes as it was sent,
  for each of the two motion reads and any fuel: the read raises exactly when, at some
  round within the fuel, the deadline is found reached while every earlier round was
  within the deadline and had a sample that failed the validity test, and then what it
  raises is the \<^verbatim>\<open>RuntimeError\<close> for the timeout (the timeout error of the
  specification); it returns \<open>(x, y)\<close> exactly when these are the deltas of the first
  sample that passes the validity test, taken within the deadline, decoded as signed
  16-bit little-endian numbers (bytes 3, 4 and 5, 6 of a burst answer; bytes 1, 2 and 3, 4
  of a slow sample); and it is still running when the fuel is used up exactly when no round
  so far had the deadline reached or a valid sample. The slow read takes a sample as valid
  exactly when bit 7 of its data-ready byte is set.
\<close>

theorem motion_reads:
  assumes "spi_bytes (xfer2 self)"
  shows
   "(\<forall>e. (\<exists>w'. get_motion fuel self timeout w = Some (Inl e, w')) \<longleftrightarrow>
          e = RuntimeError MotionTimeout \<and>
          (\<exists>k<fuel. deadline_reached w timeout k \<and>
             (\<forall>j<k. \<not> deadline_reached w timeout j \<and> \<not> burst_valid (burst_sample self (dev w) j)))) \<and>
    (\<forall>x y. (\<exists>w'. get_motion fuel self timeout w = Some (Inr (x, y), w')) \<longleftrightarrow>
          (\<exists>k<fuel. \<not> deadline_reached w timeout k \<and> burst_valid (burst_sample self (dev w) k) \<and>
             (\<forall>j<k. \<not> deadline_reached w timeout j \<and> \<not> burst_valid (burst_sample self (dev w) j)) \<and>
             (x, y) = (sint16_le (burst_sample self (dev w) k ! 3) (burst_sample self (dev w) k ! 4),
                       sint16_le (burst_sample self (dev w) k ! 5) (burst_sample self (dev w) k ! 6)))) \<and>
    (get_motion fuel self timeout w = None \<longleftrightarrow>
          (\<forall>k<fuel. \<not> deadline_reached w timeout k \<and> \<not> burst_valid (burst_sample self (dev w) k))) \<and>
    (\<forall>e. (\<exists>w'. get_motion_slow fuel self timeout w = Some (Inl e, w')) \<longleftrightarrow>
          e = RuntimeError MotionTimeout \<and>
          (\<exists>k<fuel. deadline_reached w timeout k \<and>
             (\<forall>j<k. \<not> deadline_reached w timeout j \<and> \<not> slow_valid (slow_sample self (dev w) j)))) \<and>
    (\<forall>x y. (\<exists>w'. get_motion_slow fuel self timeout w = Some (Inr (x, y), w')) \<longleftrightarrow>
          (\<exists>k<fuel. \<not> deadline_reached w timeout k \<and> slow_valid (slow_sample self (dev w) k) \<and>
             (\<forall>j<k. \<not> deadline_reached w timeout j \<and> \<not> slow_valid (slow_sample self (dev w) j)) \<and>
             (x, y) = (sint16_le (slow_sample self (dev w) k ! 1) (slow_sample self (dev w) k ! 2),
                       sint16_le (slow_sample self (dev w) k ! 3) (slow_sample self (dev w) k ! 4)))) \<and>
    (get_motion_slow fuel self timeout w = None \<longleftrightarrow>
          (\<forall>k<fuel. \<not> deadline_reached w timeout k \<and> \<not> slow_valid (slow_sample self (dev w) k)))"
  by (intro conjI allI;
      (rule poll_outcome [OF get_motion_outcome [OF assms]]
       | rule poll_outcome [OF get_motion_slow_outcome [OF assms]]))

theorem motion_reads_witness:
  "spi_bytes (xfer2 script_driver) \<and>
   (\<exists>w'. get_motion 3 script_driver 10
           (script_world [[0, 0x00, 0, 0x05, 0x00, 0x07, 0x00, 0x40, 0, 0, 0, 0x10, 0],
                          [0, 0x80, 0, 0xFE, 0xFF, 0x03, 0x00, 0x40, 0, 0, 0, 0x10, 0]])
         = Some (Inr (- 2, 3), w')) \<and>
   (\<exists>w'. get_motion_slow 5 script_driver 2 (script_world [])
         = Some (Inl (RuntimeError MotionTimeout), w'))"
proof -
  define s0 :: "int list" where "s0 = [0, 0x00, 0, 0x05, 0x00, 0x07, 0x00, 0x40, 0, 0, 0, 0x10, 0]"
  define s1 :: "int list" where "s1 = [0, 0x80, 0, 0xFE, 0xFF, 0x03, 0x00, 0x40, 0, 0, 0, 0x10, 0]"
  have b: "spi_bytes (xfer2 script_driver)"
    by (simp add: script_driver_xfer2 script_spi_bytes)
  have ok: "length s0 = 13" "length s1 = 13" "list_all is_byte s0" "list_all is_byte s1"
    by (simp_all add: s0_def s1_def is_byte_def)
  have b0: "burst_sample script_driver [s0, s1] 0 = s0"
    by (simp add: burst_sample_def script_driver_xfer2 script_xfer2_simps ok)
  have b1: "burst_sample script_driver [s0, s1] (Suc 0) = s1"
    by (simp add: burst_sample_def script_driver_xfer2 script_xfer2_simps ok)
  have v0: "\<not> burst_valid s0"
    by (simp add: burst_valid_def spec_valid_def s0_def)
  have v1: "burst_valid s1"
    by (simp add: burst_valid_def spec_valid_def s1_def)
  have d: "sint16_le (s1 ! 3) (s1 ! 4) = - 2" "sint16_le (s1 ! 5) (s1 ! 6) = 3"
    by (simp_all add: s1_def sint16_le_def)
  have "\<exists>k<3. \<not> deadline_reached (script_world [s0, s1]) 10 k \<and>
           burst_valid (burst_sample script_driver (dev (script_world [s0, s1])) k) \<and>
           (\<forall>j<k. \<not> deadline_reached (script_world [s0, s1]) 10 j \<and>
                  \<not> burst_valid (burst_sample script_driver (dev (script_world [s0, s1])) j)) \<and>
           (- 2, 3) =
             (sint16_le (burst_sample script_driver (dev (script_world [s0, s1])) k ! 3)
                (burst_sample script_driver (dev (script_world [s0, s1])) k ! 4),
              sint16_le (burst_sample script_driver (dev (script_world [s0, s1])) k ! 5)
                (burst_sample script_driver (dev (script_world [s0, s1])) k ! 6))"
    by (rule exI [of _ 1]) (simp add: script_world_sel deadline_reached_def b0 b1 v0 v1 d)
  then have burst: "\<exists>w'. get_motion 3 script_driver 10 (script_world [s0, s1])
                      = Some (Inr (- 2, 3), w')"
    using motion_reads [OF b, of 3 10 "script_world [s0, s1]", THEN conjunct2, THEN conjunct1]
    by blast
  have z: "slow_sample script_driver [] k = [0, 0, 0, 0, 0]" for k
  proof -
    have "after script_xfer2 [] txs = []" for txs
      by (induction txs) (simp_all add: script_xfer2_simps)
    then show ?thesis
      by (simp add: slow_sample_def script_driver_xfer2) (simp add: slow_txs_def script_xfer2_simps)
  qed
  have "\<exists>k<5. deadline_reached (script_world []) 2 k \<and>
           (\<forall>j<k. \<not> deadline_reached (script_world []) 2 j \<and>
                  \<not> slow_valid (slow_sample script_driver (dev (script_world [])) j))"
    by (rule exI [of _ 1]) (simp add: script_world_sel deadline_reached_def z slow_valid_def)
  then have slow: "\<exists>w'. get_motion_slow 5 script_driver 2 (script_world [])
                      = Some (Inl (RuntimeError MotionTimeout), w')"
    using motion_reads [OF b, of 5 2 "script_world []", THEN conjunct2, THEN conjunct2,
        THEN conjunct2, THEN conjunct1]
    by blast
  show ?thesis
    using b burst slow by (simp add: s0_def s1_def)
qed

subsection \<open>Fragments of a pixel\<close>

lemma numeral_masks:
  "(0xC0::int) = push_bit 6 (mask 2)" "(0x80::int) = push_bit 7 1" "(0x40::int) = push_bit 6 1"
  "(0xFC::int) = push_bit 2 (mask 6)" "(3::int) = mask 2" "(0x3F::int) = mask 6"
  "(0x0C::int) = push_bit 2 (mask 2)"
  by (simp_all add: mask_eq_exp_minus_1)

lemma lower_pattern: "((b::int) AND 0xC0 = 0x80) = (bit b 7 \<and> \<not> bit b 6)"
proof -
  have "(b AND 0xC0 = 0x80) \<longleftrightarrow> (\<forall>n. (bit b n \<and> 6 \<le> n \<and> n < 8) = (n = 7))"
    unfolding numeral_masks(1,2)
    by (simp only: bit_eq_iff [where ?'a = int] bit_simps) (simp, rule all_cong1, arith)
  also have "\<dots> \<longleftrightarrow> bit b 7 \<and> \<not> bit b 6"
  proof
    assume a: "\<forall>n. (bit b n \<and> 6 \<le> n \<and> n < 8) = (n = 7)"
    from a [rule_format, of 7] a [rule_format, of 6] show "bit b 7 \<and> \<not> bit b 6" by simp
  next
    assume a: "bit b 7 \<and> \<not> bit b 6"
    show "\<forall>n. (bit b n \<and> 6 \<le> n \<and> n < 8) = (n = 7)"
    proof
      fix n :: nat
      have "6 \<le> n \<and> n < 8 \<longleftrightarrow> n = 6 \<or> n = 7" by arith
      then show "(bit b n \<and> 6 \<le> n \<and> n < 8) = (n = 7)" using a by auto
    qed
  qed
  finally show ?thesis .
qed

lemma pixel_bits:
  assumes "is_byte p"
  shows "((p AND NOT 0xFC) OR push_bit 2 (u AND 0x3F)) AND NOT 3 OR drop_bit 2 (l AND 0x0C)
           = push_bit 2 (u AND 0x3F) OR drop_bit 2 (l AND 0x0C)"
proof -
  have p: "p = take_bit 8 p"
    using assms by (simp add: is_byte_def take_bit_int_eq_self)
  have hi: "\<not> bit p n" if "8 \<le> n" for n
    using that by (subst p) (simp add: bit_take_bit_iff)
  have "((p AND NOT 0xFC) OR push_bit 2 (u AND 0x3F)) AND NOT 3 = push_bit 2 (u AND 0x3F)"
    unfolding numeral_masks
    by (rule bit_eqI) (use hi in \<open>auto simp: bit_simps\<close>)
  then show ?thesis
    by (simp only:)
qed

lemma fragment_eq:
  assumes "x < length raw"
  shows "fragment b raw x =
     Inr (let raw1 = (if b AND 0b11000000 = 0b01000000
                      then raw[x := (raw ! x AND NOT 0b11111100) OR push_bit 2 (b AND 0b00111111)]
                      else raw)
          in if b AND 0b11000000 = 0b10000000
             then (raw1[x := (raw1 ! x AND NOT 0b00000011) OR drop_bit 2 (b AND 0b00001100)], x + 1)
             else (raw1, x))"
  using assms
  by (simp add: fragment_def upper_fragment_def lower_fragment_def item_update_def Let_def)

lemma fragment_index:
  assumes "x < length raw"
  shows "\<exists>raw'. fragment b raw x = Inr (raw', if is_lower b then x + 1 else x) \<and>
               length raw' = length raw"
  unfolding fragment_eq [OF assms] is_lower_def lower_pattern [symmetric]
  by (simp add: Let_def)

text \<open>
  \<^bold>\<open>C4\<close>, as the code has it. An upper fragment \<open>u\<close> (top bits 01) followed by a lower
  fragment \<open>l\<close> (top bits 10) for the same pixel index leaves there the pixel whose bits
  7 to 2 are the low six bits of \<open>u\<close> and whose bits 1 and 0 are bits 3 and 2 of \<open>l\<close>,
  and moves the index on by one. So the bytes \<open>0b01111111\<close> and \<open>0b10000011\<close> give the
  pixel \<open>0xFC\<close>, since bits 3 and 2 of \<open>0b10000011\<close> are both 0.
\<close>

theorem fragment_pair_pixel:
  assumes "x < length raw_data" and "is_byte (raw_data ! x)"
    and "u AND 0b11000000 = 0b01000000" and "l AND 0b11000000 = 0b10000000"
  shows "\<exists>raw1 raw2.
           fragment u raw_data x = Inr (raw1, x) \<and>
           fragment l raw1 x = Inr (raw2, x + 1) \<and>
           raw2 ! x = push_bit 2 (u AND 0b00111111) OR drop_bit 2 (l AND 0b00001100) \<and>
           (u = 0b01111111 \<and> l = 0b10000011 \<longrightarrow> raw2 ! x = 0xFC)"
proof -
  define raw1 where
    "raw1 = raw_data[x := (raw_data ! x AND NOT 0b11111100) OR push_bit 2 (u AND 0b00111111)]"
  define raw2 where
    "raw2 = raw1[x := (raw1 ! x AND NOT 0b00000011) OR drop_bit 2 (l AND 0b00001100)]"
  have len: "x < length raw1" by (simp add: raw1_def assms(1))
  have 1: "fragment u raw_data x = Inr (raw1, x)"
    using assms(3) by (simp add: fragment_eq [OF assms(1)] raw1_def)
  have 2: "fragment l raw1 x = Inr (raw2, x + 1)"
    using assms(4) by (simp add: fragment_eq [OF len] raw2_def)
  have "raw2 ! x = ((raw_data ! x AND NOT 0xFC) OR push_bit 2 (u AND 0x3F)) AND NOT 3
                     OR drop_bit 2 (l AND 0x0C)"
    using assms(1) by (simp add: raw2_def raw1_def)
  then have 3: "raw2 ! x = push_bit 2 (u AND 0x3F) OR drop_bit 2 (l AND 0x0C)"
    by (simp only: pixel_bits [OF assms(2)])
  have 4: "u = 0b01111111 \<and> l = 0b10000011 \<longrightarrow> raw2 ! x = 0xFC"
    unfolding 3 by simp
  show ?thesis
    using 1 2 3 4 by blast
qed

theorem fragment_pair_pixel_witness:
  "(\<exists>raw1 raw2.
      fragment 0b01111111 [0, 0, 0] 1 = Inr (raw1, 1) \<and>
      fragment 0b10000011 raw1 1 = Inr (raw2, 1 + 1) \<and> raw2 ! 1 = 0xFC) \<and>
   (\<exists>raw1 raw2.
      fragment 0b01010101 [0, 0, 0] 1 = Inr (raw1, 1) \<and>
      fragment 0b10001000 raw1 1 = Inr (raw2, 1 + 1) \<and> raw2 ! 1 = 0x56)"
proof -
  have a: "(1::nat) < length [0, 0, 0 :: int]" "is_byte ([0, 0, 0] ! 1)"
    "(0b01111111 :: int) AND 0b11000000 = 0b01000000" "(0b10000011 :: int) AND 0b11000000 = 0b10000000"
    "(0b01010101 :: int) AND 0b11000000 = 0b01000000" "(0b10001000 :: int) AND 0b11000000 = 0b10000000"
    by (simp_all add: is_byte_def)
  from fragment_pair_pixel [OF a(1,2,3,4)] fragment_pair_pixel [OF a(1,2,5,6)]
  show ?thesis
    by simp
qed

text \<open>
  \<^bold>\<open>C4\<close>, as stated, fails: after the two bytes the pixel is \<open>0xFC\<close>, which is not
  \<open>(0x3F << 2) | 0b11\<close>.
\<close>

theorem fragment_pair_counterexample:
  "fragment 0b01111111 [0] 0 = Inr ([0xFC], 0) \<and>
   fragment 0b10000011 [0xFC] 0 = Inr ([0xFC], 1) \<and>
   (0xFC :: int) \<noteq> push_bit 2 0x3F OR 0b11"
  by (simp add: fragment_eq)

subsection \<open>The streaming loop\<close>

lemma lower_count_0 [simp]: "lower_count self d 0 = 0"
  by (simp add: lower_count_def)

lemma lower_count_Suc:
  "lower_count self d (Suc n) =
     (if is_lower (grab_byte self d n) then Suc (lower_count self d n) else lower_count self d n)"
  by (simp add: lower_count_def)

lemma raw_data_loop_step:
  assumes "full_duplex (xfer2 self)"
    and "fragment (fst (xfer2 self (dev w) grab_tx) ! 1) raw x = Inr (raw', x')"
  shows "raw_data_loop (Suc fuel) self timeout t0 raw x w =
     (if x' = RAW_DATA_LEN
      then Some (Inr raw',
                 w\<lparr>dev := snd (xfer2 self (dev w) grab_tx),
                   trace := trace w @ bracket self grab_tx\<rparr>)
      else if timeout < clock w (ticks w) - t0
      then Some (Inl (RuntimeError (RawTimeout x')),
                 w\<lparr>dev := snd (xfer2 self (dev w) grab_tx),
                   trace := trace w @ bracket self grab_tx, ticks := Suc (ticks w)\<rparr>)
      else raw_data_loop fuel self timeout t0 raw' x'
             (w\<lparr>dev := snd (xfer2 self (dev w) grab_tx),
                trace := trace w @ bracket self grab_tx, ticks := Suc (ticks w)\<rparr>))"
  using assms(2)
  by (simp add: read_int_fd [OF assms(1)] grab_tx_def time_time_def)

declare raw_data_loop.simps [simp del]

lemma raw_data_loop_poll:
  assumes "full_duplex (xfer2 self)"
    and "ticks w' = ticks w + i" and "clock w' = clock w"
    and "dev w' = after (xfer2 self) (dev w) (replicate i grab_tx)"
    and "x = lower_count self (dev w) i" and "x < RAW_DATA_LEN" and "length raw = RAW_DATA_LEN"
  shows "map_option (\<lambda>r. map_sum (\<lambda>e. e) length (fst r)) (raw_data_loop fuel self timeout t0 raw x w') =
         map_option
           (case_sum (\<lambda>k. Inr RAW_DATA_LEN)
              (\<lambda>k. Inl (RuntimeError (RawTimeout (lower_count self (dev w) (Suc k))))))
           (poll fuel (\<lambda>k. lower_count self (dev w) (Suc k) = RAW_DATA_LEN)
              (stream_late w t0 timeout) i)"
  using assms(2-7)
proof (induction fuel arbitrary: i w' x raw)
  case 0
  show ?case by (simp add: raw_data_loop.simps)
next
  case (Suc fuel)
  define b where "b = fst (xfer2 self (dev w') grab_tx) ! 1"
  have b: "b = grab_byte self (dev w) i"
    by (simp add: b_def grab_byte_def Suc.prems)
  have "x < length raw" using Suc.prems by simp
  from fragment_index [OF this, of b]
  obtain raw' where f: "fragment b raw x = Inr (raw', if is_lower b then x + 1 else x)"
    and len: "length raw' = length raw" by blast
  define x' where "x' = (if is_lower b then x + 1 else x)"
  have x': "x' = lower_count self (dev w) (Suc i)"
    by (simp add: x'_def lower_count_Suc b Suc.prems)
  note step = raw_data_loop_step [OF assms(1) f [unfolded b_def], of fuel timeout t0,
      folded b_def x'_def]
  have late: "stream_late w t0 timeout i = (timeout < clock w' (ticks w') - t0)"
    by (simp add: stream_late_def Suc.prems)
  show ?case
  proof (cases "x' = RAW_DATA_LEN")
    case True
    then show ?thesis
      using step len Suc.prems by (simp add: x' [symmetric])
  next
    case nd: False
    show ?thesis
    proof (cases "stream_late w t0 timeout i")
      case True
      then show ?thesis
        using step nd late by (simp add: x' [symmetric])
    next
      case False
      define w'' where "w'' = w'\<lparr>dev := snd (xfer2 self (dev w') grab_tx),
                trace := trace w' @ bracket self grab_tx, ticks := Suc (ticks w')\<rparr>"
      have below: "x' < RAW_DATA_LEN"
        using nd Suc.prems by (simp add: x'_def split: if_splits)
      have ih: "map_option (\<lambda>r. map_sum (\<lambda>e. e) length (fst r))
                  (raw_data_loop fuel self timeout t0 raw' x' w'') =
         map_option
           (case_sum (\<lambda>k. Inr RAW_DATA_LEN)
              (\<lambda>k. Inl (RuntimeError (RawTimeout (lower_count self (dev w) (Suc k))))))
           (poll fuel (\<lambda>k. lower_count self (dev w) (Suc k) = RAW_DATA_LEN)
              (stream_late w t0 timeout) (Suc i))"
        by (rule Suc.IH)
           (simp_all add: w''_def Suc.prems after_replicate_Suc x' below [unfolded x'] len
              del: replicate_Suc)
      have "raw_data_loop (Suc fuel) self timeout t0 raw x w' =
            raw_data_loop fuel self timeout t0 raw' x' w''"
        using step nd False late by (simp add: w''_def)
      then show ?thesis
        using nd False ih by (simp add: x' [symmetric])
    qed
  qed
qed

lemma lower_count_below:
  assumes "\<forall>j<k. lower_count self d (Suc j) \<noteq> N" and "0 < N"
  shows "lower_count self d k < N"
  using assms(1)
proof (induction k)
  case 0
  show ?case using assms(2) by simp
next
  case (Suc k)
  have "lower_count self d k < N" using Suc by simp
  moreover have "lower_count self d (Suc k) \<le> Suc (lower_count self d k)"
    by (simp add: lower_count_Suc)
  moreover have "lower_count self d (Suc k) \<noteq> N" using Suc.prems by simp
  ultimately show ?case by simp
qed

lemma lower_count_ne_iff:
  assumes "0 < N"
  shows "(\<forall>j<k. lower_count self d (Suc j) \<noteq> N \<and> Q j) \<longleftrightarrow>
         (\<forall>j<k. lower_count self d (Suc j) < N \<and> Q j)"
proof
  assume a: "\<forall>j<k. lower_count self d (Suc j) \<noteq> N \<and> Q j"
  show "\<forall>j<k. lower_count self d (Suc j) < N \<and> Q j"
  proof (intro allI impI conjI)
    fix j assume j: "j < k"
    have "\<forall>i<Suc j. lower_count self d (Suc i) \<noteq> N" using a j by simp
    from lower_count_below [OF this assms] show "lower_count self d (Suc j) < N" .
    show "Q j" using a j by simp
  qed
next
  assume "\<forall>j<k. lower_count self d (Suc j) < N \<and> Q j"
  then show "\<forall>j<k. lower_count self d (Suc j) \<noteq> N \<and> Q j" by auto
qed

lemma raw_data_loop_outcome:
  assumes "full_duplex (xfer2 self)"
  shows "map_option (\<lambda>r. map_sum (\<lambda>e. e) length (fst r))
           (raw_data_loop fuel self timeout t0 (replicate RAW_DATA_LEN 0) 0 w) =
         map_option
           (case_sum (\<lambda>k. Inr RAW_DATA_LEN)
              (\<lambda>k. Inl (RuntimeError (RawTimeout (lower_count self (dev w) (Suc k))))))
           (poll fuel (\<lambda>k. lower_count self (dev w) (Suc k) = RAW_DATA_LEN)
              (stream_late w t0 timeout) 0)"
  by (rule raw_data_loop_poll [OF assms]) (simp_all add: RAW_DATA_LEN_def)

lemma raw_data_loop_success:
  assumes "full_duplex (xfer2 self)"
  shows "(\<exists>pixels w'. raw_data_loop fuel self timeout t0 (replicate RAW_DATA_LEN 0) 0 w
                        = Some (Inr pixels, w')) \<longleftrightarrow>
         (\<exists>k<fuel. lower_count self (dev w) (Suc k) = 1225 \<and>
             (\<forall>j<k. lower_count self (dev w) (Suc j) < 1225 \<and> \<not> stream_late w t0 timeout j))"
proof -
  have "(\<exists>k<fuel. lower_count self (dev w) (Suc k) = 1225 \<and>
             (\<forall>j<k. lower_count self (dev w) (Suc j) < 1225 \<and> \<not> stream_late w t0 timeout j)) \<longleftrightarrow>
        (\<exists>k. poll fuel (\<lambda>k. lower_count self (dev w) (Suc k) = RAW_DATA_LEN)
              (stream_late w t0 timeout) 0 = Some (Inl k))"
    by (simp add: poll_Inl RAW_DATA_LEN_def lower_count_ne_iff [of 1225, symmetric])
  also have "\<dots> \<longleftrightarrow> (\<exists>pixels w'. raw_data_loop fuel self timeout t0 (replicate RAW_DATA_LEN 0) 0 w
                        = Some (Inr pixels, w'))"
    using raw_data_loop_outcome [OF assms, of fuel timeout t0 w]
    by (cases "raw_data_loop fuel self timeout t0 (replicate RAW_DATA_LEN 0) 0 w";
        cases "poll fuel (\<lambda>k. lower_count self (dev w) (Suc k) = RAW_DATA_LEN)
              (stream_late w t0 timeout) 0")
       (auto split: sum.splits simp: map_sum_def)
  finally show ?thesis by simp
qed

lemma raw_data_loop_length:
  assumes "full_duplex (xfer2 self)"
    and "raw_data_loop fuel self timeout t0 (replicate RAW_DATA_LEN 0) 0 w = Some (Inr pixels, w')"
  shows "length pixels = 1225"
  using raw_data_loop_outcome [OF assms(1), of fuel timeout t0 w] assms(2)
  by (cases "poll fuel (\<lambda>k. lower_count self (dev w) (Suc k) = RAW_DATA_LEN)
              (stream_late w t0 timeout) 0")
     (auto split: sum.splits simp: RAW_DATA_LEN_def)

lemma raw_data_loop_timeout:
  assumes "full_duplex (xfer2 self)"
  shows "(\<exists>w'. raw_data_loop fuel self timeout t0 (replicate RAW_DATA_LEN 0) 0 w
                 = Some (Inl e, w')) \<longleftrightarrow>
         (\<exists>k<fuel. e = RuntimeError (RawTimeout (lower_count self (dev w) (Suc k))) \<and>
             lower_count self (dev w) (Suc k) < 1225 \<and> stream_late w t0 timeout k \<and>
             (\<forall>j<k. lower_count self (dev w) (Suc j) < 1225 \<and> \<not> stream_late w t0 timeout j))"
proof -
  have lt: "lower_count self (dev w) (Suc k) < 1225 \<and>
            (\<forall>j<k. lower_count self (dev w) (Suc j) < 1225 \<and> \<not> stream_late w t0 timeout j) \<longleftrightarrow>
            lower_count self (dev w) (Suc k) \<noteq> 1225 \<and>
            (\<forall>j<k. lower_count self (dev w) (Suc j) \<noteq> 1225 \<and> \<not> stream_late w t0 timeout j)" for k
  proof -
    have "lower_count self (dev w) (Suc k) < 1225"
      if "lower_count self (dev w) (Suc k) \<noteq> 1225"
        and "\<forall>j<k. lower_count self (dev w) (Suc j) \<noteq> 1225" 
    proof -
      have "\<forall>j<Suc k. lower_count self (dev w) (Suc j) \<noteq> 1225"
        using that by (simp add: less_Suc_eq)
      from lower_count_below [OF this] show ?thesis by simp
    qed
    then show ?thesis
      using lower_count_ne_iff [of 1225 k self "dev w" "\<lambda>j. \<not> stream_late w t0 timeout j"]
      by auto
  qed
  have "(\<exists>k<fuel. e = RuntimeError (RawTimeout (lower_count self (dev w) (Suc k))) \<and>
             lower_count self (dev w) (Suc k) < 1225 \<and> stream_late w t0 timeout k \<and>
             (\<forall>j<k. lower_count self (dev w) (Suc j) < 1225 \<and> \<not> stream_late w t0 timeout j)) \<longleftrightarrow>
        (\<exists>k. poll fuel (\<lambda>k. lower_count self (dev w) (Suc k) = RAW_DATA_LEN)
              (stream_late w t0 timeout) 0 = Some (Inr k) \<and>
             e = RuntimeError (RawTimeout (lower_count self (dev w) (Suc k))))"
    using lt by (simp add: poll_Inr RAW_DATA_LEN_def) blast
  also have "\<dots> \<longleftrightarrow> (\<exists>w'. raw_data_loop fuel self timeout t0 (replicate RAW_DATA_LEN 0) 0 w
                        = Some (Inl e, w'))"
    using raw_data_loop_outcome [OF assms, of fuel timeout t0 w]
    by (cases "raw_data_loop fuel self timeout t0 (replicate RAW_DATA_LEN 0) 0 w";
        cases "poll fuel (\<lambda>k. lower_count self (dev w) (Suc k) = RAW_DATA_LEN)
              (stream_late w t0 timeout) 0")
       (auto split: sum.splits simp: map_sum_def)
  finally show ?thesis by simp
qed

lemma raw_data_loop_running:
  assumes "full_duplex (xfer2 self)"
  shows "raw_data_loop fuel self timeout t0 (replicate RAW_DATA_LEN 0) 0 w = None \<longleftrightarrow>
         (\<forall>k<fuel. lower_count self (dev w) (Suc k) < 1225 \<and> \<not> stream_late w t0 timeout k)"
proof -
  have "(\<forall>k<fuel. lower_count self (dev w) (Suc k) < 1225 \<and> \<not> stream_late w t0 timeout k) \<longleftrightarrow>
        poll fuel (\<lambda>k. lower_count self (dev w) (Suc k) = RAW_DATA_LEN)
              (stream_late w t0 timeout) 0 = None"
    by (simp add: poll_None RAW_DATA_LEN_def lower_count_ne_iff [of 1225, symmetric])
  then show ?thesis
    using raw_data_loop_outcome [OF assms, of fuel timeout t0 w]
    by (cases "raw_data_loop fuel self timeout t0 (replicate RAW_DATA_LEN 0) 0 w") auto
qed

text \<open>
  The pixels in the buffer of the loop are the frame assembled from the bytes read so far:
  the completed pixels, then the upper bits held for the current pixel, then zeros.
\<close>

lemma upper_pattern: "((b::int) AND 0xC0 = 0x40) = (\<not> bit b 7 \<and> bit b 6)"
proof -
  have "(b AND 0xC0 = 0x40) \<longleftrightarrow> (\<forall>n. (bit b n \<and> 6 \<le> n \<and> n < 8) = (n = 6))"
    unfolding numeral_masks(1,3)
    by (simp only: bit_eq_iff [where ?'a = int] bit_simps) (simp, rule all_cong1, arith)
  also have "\<dots> \<longleftrightarrow> \<not> bit b 7 \<and> bit b 6"
  proof
    assume a: "\<forall>n. (bit b n \<and> 6 \<le> n \<and> n < 8) = (n = 6)"
    from a [rule_format, of 7] a [rule_format, of 6] show "\<not> bit b 7 \<and> bit b 6" by simp
  next
    assume a: "\<not> bit b 7 \<and> bit b 6"
    show "\<forall>n. (bit b n \<and> 6 \<le> n \<and> n < 8) = (n = 6)"
    proof
      fix n :: nat
      have "6 \<le> n \<and> n < 8 \<longleftrightarrow> n = 6 \<or> n = 7" by arith
      then show "(bit b n \<and> 6 \<le> n \<and> n < 8) = (n = 6)" using a by auto
    qed
  qed
  finally show ?thesis .
qed

lemma high_push: "push_bit 2 ((v::int) AND 0x3F) AND NOT 0xFC = 0"
  unfolding numeral_masks
  by (rule bit_eqI) (auto simp: bit_simps)

lemma high_keep:
  assumes "(h::int) AND NOT 0xFC = 0"
  shows "h AND NOT 3 = h"
proof -
  have z: "\<not> bit h n" if "n < 2 \<or> 8 \<le> n" for n
  proof -
    have "bit (h AND NOT (push_bit 2 (mask 6))) n = bit (0::int) n"
      using assms by (simp only: numeral_masks)
    then show ?thesis using that by (auto simp: bit_simps)
  qed
  show ?thesis
    unfolding numeral_masks
    by (rule bit_eqI) (use z in \<open>auto simp: bit_simps\<close>)
qed

lemma fragment_assemble:
  assumes "x = length ps" and "raw = ps @ h # zs" and "h AND NOT 0xFC = 0"
    and "assemble_step (ps, h) b = (ps', h')"
  shows "fragment b raw x = Inr (if is_lower b then ps' @ zs else ps' @ h' # zs, length ps')"
    and "h' AND NOT 0xFC = 0"
proof -
  have x: "x < length raw" using assms(1,2) by simp
  have ul: "\<not> (is_upper b \<and> is_lower b)" by (auto simp: is_upper_def is_lower_def)
  have u: "(b AND 0b11000000 = 0b01000000) = is_upper b"
    unfolding is_upper_def by (rule upper_pattern)
  have l: "(b AND 0b11000000 = 0b10000000) = is_lower b"
    unfolding is_lower_def by (rule lower_pattern)
  have f: "fragment b raw x =
     Inr (let raw1 = (if is_upper b
                      then raw[x := (raw ! x AND NOT 0b11111100) OR push_bit 2 (b AND 0b00111111)]
                      else raw)
          in if is_lower b
             then (raw1[x := (raw1 ! x AND NOT 0b00000011) OR drop_bit 2 (b AND 0b00001100)], x + 1)
             else (raw1, x))"
    using fragment_eq [OF x, of b] unfolding u l .
  note f' = f [unfolded assms(1,2)]
  show "fragment b raw x = Inr (if is_lower b then ps' @ zs else ps' @ h' # zs, length ps')"
    unfolding assms(1,2)
  proof (cases "is_upper b")
    case True
    then have nl: "\<not> is_lower b" using ul by simp
    have s: "ps' = ps" "h' = push_bit 2 (b AND 0x3F)"
      using assms(4) True by (simp_all add: assemble_step_def)
    show "fragment b (ps @ h # zs) (length ps) =
            Inr (if is_lower b then ps' @ zs else ps' @ h' # zs, length ps')"
      unfolding s f' using True nl assms(3) by simp
  next
    case nu: False
    show "fragment b (ps @ h # zs) (length ps) =
            Inr (if is_lower b then ps' @ zs else ps' @ h' # zs, length ps')"
    proof (cases "is_lower b")
      case True
      have s: "ps' = ps @ [h OR drop_bit 2 (b AND 0x0C)]" "h' = 0"
        using assms(4) True nu by (simp_all add: assemble_step_def)
      show ?thesis
        unfolding s f' using True nu high_keep [OF assms(3)] by simp
    next
      case False
      have s: "ps' = ps" "h' = h"
        using assms(4) False nu by (simp_all add: assemble_step_def)
      show ?thesis
        unfolding s f' using False nu by simp
    qed
  qed
  show "h' AND NOT 0xFC = 0"
    using assms(3,4) high_push [of b]
    by (auto simp: assemble_step_def split: if_splits)
qed

lemma stream_bytes_Suc:
  "stream_bytes self d (Suc n) = stream_bytes self d n @ [grab_byte self d n]"
  by (simp add: stream_bytes_def)

lemma length_assemble_step:
  "length (fst (assemble_step s b)) = length (fst s) + (if is_lower b then 1 else 0)"
  by (cases s) (auto simp: assemble_step_def is_upper_def is_lower_def)

lemma length_foldl_assemble:
  "length (fst (foldl assemble_step ([], 0) (stream_bytes self d n))) = lower_count self d n"
proof (induction n)
  case 0
  show ?case by (simp add: stream_bytes_def)
next
  case (Suc n)
  show ?case
    by (simp only: stream_bytes_Suc foldl_append foldl.simps length_assemble_step Suc
          lower_count_Suc) simp
qed

lemma raw_data_loop_frames:
  assumes "full_duplex (xfer2 self)"
    and "ticks w' = ticks w + i" and "clock w' = clock w"
    and "dev w' = after (xfer2 self) (dev w) (replicate i grab_tx)"
    and "foldl assemble_step ([], 0) (stream_bytes self (dev w) i) = (ps, h)"
    and "length ps < RAW_DATA_LEN"
    and "raw = ps @ h # replicate (RAW_DATA_LEN - 1 - length ps) 0"
    and "x = length ps" and "h AND NOT 0xFC = 0"
  shows "map_option fst (raw_data_loop fuel self timeout t0 raw x w') =
         map_option
           (case_sum (\<lambda>k. Inr (assemble (stream_bytes self (dev w) (Suc k))))
              (\<lambda>k. Inl (RuntimeError (RawTimeout (lower_count self (dev w) (Suc k))))))
           (poll fuel (\<lambda>k. lower_count self (dev w) (Suc k) = RAW_DATA_LEN)
              (stream_late w t0 timeout) i)"
  using assms(2-9)
proof (induction fuel arbitrary: i w' x raw ps h)
  case 0
  show ?case by (simp add: raw_data_loop.simps)
next
  case (Suc fuel)
  define b where "b = fst (xfer2 self (dev w') grab_tx) ! 1"
  have b: "b = grab_byte self (dev w) i"
    by (simp add: b_def grab_byte_def Suc.prems)
  obtain ps' h' where st: "assemble_step (ps, h) b = (ps', h')"
    by (cases "assemble_step (ps, h) b")
  define zs where "zs = replicate (RAW_DATA_LEN - 1 - length ps) (0::int)"
  have raw: "raw = ps @ h # zs" by (simp add: zs_def Suc.prems)
  note fa = fragment_assemble [OF Suc.prems(7) raw Suc.prems(8) st]
  have fold: "foldl assemble_step ([], 0) (stream_bytes self (dev w) (Suc i)) = (ps', h')"
    by (simp only: stream_bytes_Suc foldl_append foldl.simps Suc.prems(4) b [symmetric] st)
  have cnt: "length ps' = lower_count self (dev w) (Suc i)"
    using length_foldl_assemble [of self "dev w" "Suc i"] by (simp only: fold fst_conv)
  have len': "length ps' = length ps + (if is_lower b then 1 else 0)"
    using length_assemble_step [of "(ps, h)" b] by (simp add: st)
  note step = raw_data_loop_step [OF assms(1) fa(1) [unfolded b_def], of fuel timeout t0,
      folded b_def]
  have late: "stream_late w t0 timeout i = (timeout < clock w' (ticks w') - t0)"
    by (simp add: stream_late_def Suc.prems)
  show ?case
  proof (cases "length ps' = RAW_DATA_LEN")
    case True
    then have low: "is_lower b" using len' Suc.prems(5) by (auto split: if_splits)
    have "zs = []" using True len' low by (simp add: zs_def)
    then have "(if is_lower b then ps' @ zs else ps' @ h' # zs) = assemble (stream_bytes self (dev w) (Suc i))"
      using low by (simp add: assemble_def fold)
    then show ?thesis
      using step True by (simp add: cnt [symmetric])
  next
    case nd: False
    show ?thesis
    proof (cases "stream_late w t0 timeout i")
      case True
      then show ?thesis
        using step nd late by (simp add: cnt [symmetric])
    next
      case False
      define raw' where "raw' = (if is_lower b then ps' @ zs else ps' @ h' # zs)"
      define w'' where "w'' = w'\<lparr>dev := snd (xfer2 self (dev w') grab_tx),
                trace := trace w' @ bracket self grab_tx, ticks := Suc (ticks w')\<rparr>"
      have below: "length ps' < RAW_DATA_LEN"
        using nd len' Suc.prems(5) by (auto split: if_splits)
      have raw': "raw' = ps' @ h' # replicate (RAW_DATA_LEN - 1 - length ps') 0"
      proof (cases "is_lower b")
        case True
        then have "h' = 0" using st by (auto simp: assemble_step_def is_upper_def is_lower_def)
        moreover have "zs = 0 # replicate (RAW_DATA_LEN - 1 - length ps') 0"
        proof -
          have "RAW_DATA_LEN - 1 - length ps = Suc (RAW_DATA_LEN - 1 - length ps')"
            using True len' below by simp
          then show ?thesis by (simp add: zs_def)
        qed
        ultimately show ?thesis using True by (simp add: raw'_def)
      next
        case False
        then show ?thesis using len' by (simp add: raw'_def zs_def)
      qed
      have ih: "map_option fst (raw_data_loop fuel self timeout t0 raw' (length ps') w'') =
         map_option
           (case_sum (\<lambda>k. Inr (assemble (stream_bytes self (dev w) (Suc k))))
              (\<lambda>k. Inl (RuntimeError (RawTimeout (lower_count self (dev w) (Suc k))))))
           (poll fuel (\<lambda>k. lower_count self (dev w) (Suc k) = RAW_DATA_LEN)
              (stream_late w t0 timeout) (Suc i))"
      proof (rule Suc.IH [OF _ _ _ fold below raw' refl fa(2)])
        show "ticks w'' = ticks w + Suc i" by (simp add: w''_def Suc.prems)
        show "clock w'' = clock w" by (simp add: w''_def Suc.prems)
        show "dev w'' = after (xfer2 self) (dev w) (replicate (Suc i) grab_tx)"
          by (simp add: w''_def Suc.prems after_replicate_Suc del: replicate_Suc)
      qed
      have "raw_data_loop (Suc fuel) self timeout t0 raw x w' =
            raw_data_loop fuel self timeout t0 raw' (length ps') w''"
        using step nd False late by (simp add: w''_def raw'_def)
      then show ?thesis
        using nd False ih by (simp add: cnt [symmetric])
    qed
  qed
qed

lemma raw_data_loop_pixels:
  assumes "full_duplex (xfer2 self)"
  shows "(\<exists>w'. raw_data_loop fuel self timeout t0 (replicate RAW_DATA_LEN 0) 0 w
                 = Some (Inr pixels, w')) \<longleftrightarrow>
         (\<exists>k<fuel. lower_count self (dev w) (Suc k) = 1225 \<and>
             (\<forall>j<k. lower_count self (dev w) (Suc j) < 1225 \<and> \<not> stream_late w t0 timeout j) \<and>
             pixels = assemble (stream_bytes self (dev w) (Suc k)))"
proof -
  have o: "map_option fst (raw_data_loop fuel self timeout t0 (replicate RAW_DATA_LEN 0) 0 w) =
         map_option
           (case_sum (\<lambda>k. Inr (assemble (stream_bytes self (dev w) (Suc k))))
              (\<lambda>k. Inl (RuntimeError (RawTimeout (lower_count self (dev w) (Suc k))))))
           (poll fuel (\<lambda>k. lower_count self (dev w) (Suc k) = RAW_DATA_LEN)
              (stream_late w t0 timeout) 0)"
    by (rule raw_data_loop_frames [OF assms, where ps = "[]" and h = 0])
       (simp_all add: RAW_DATA_LEN_def stream_bytes_def replicate_Suc [symmetric]
          del: replicate_Suc)
  have "(\<exists>k<fuel. lower_count self (dev w) (Suc k) = 1225 \<and>
             (\<forall>j<k. lower_count self (dev w) (Suc j) < 1225 \<and> \<not> stream_late w t0 timeout j) \<and>
             pixels = assemble (stream_bytes self (dev w) (Suc k))) \<longleftrightarrow>
        (\<exists>k. poll fuel (\<lambda>k. lower_count self (dev w) (Suc k) = RAW_DATA_LEN)
              (stream_late w t0 timeout) 0 = Some (Inl k) \<and>
             pixels = assemble (stream_bytes self (dev w) (Suc k)))"
    by (simp add: poll_Inl RAW_DATA_LEN_def lower_count_ne_iff [of 1225, symmetric])
  also have "\<dots> \<longleftrightarrow> (\<exists>w'. raw_data_loop fuel self timeout t0 (replicate RAW_DATA_LEN 0) 0 w
                        = Some (Inr pixels, w'))"
    using o
    by (cases "raw_data_loop fuel self timeout t0 (replicate RAW_DATA_LEN 0) 0 w";
        cases "poll fuel (\<lambda>k. lower_count self (dev w) (Suc k) = RAW_DATA_LEN)
              (stream_late w t0 timeout) 0")
       (auto split: sum.splits)
  finally show ?thesis by simp
qed

text \<open>
  \<^bold>\<open>C5.\<close> On a bus that receives as many bytes as it sends, whatever bytes the grab
  register gives: one byte moves the pixel index on by one exactly when its top two bits
  are 10, and leaves it otherwise; the streaming loop, started as the capture starts it
  (1225 pixels of 0, index 0), returns pixels exactly when the number of lower fragments
  reaches 1225 at some byte within the fuel, before which it was below 1225 and no clock
  reading after a byte was past the timeout, and the pixels it returns are 1225; it raises
  exactly when the clock reading after some byte is past the timeout while the count is
  still below 1225, and what it raises is the \<^verbatim>\<open>RuntimeError\<close> that reports this count
  (the timeout error of the specification); it is still running when the fuel is used
  up exactly when neither has happened; and the pixels it returns are exactly the frame
  assembled from the bytes read up to the one that completes pixel 1225, each pixel with
  the six bits of the last upper fragment before its lower fragment in bits 7 to 2 and with
  bits 3 and 2 of that lower fragment in bits 1 and 0.
\<close>

theorem raw_data_stream:
  assumes "full_duplex (xfer2 self)"
  shows
   "(\<forall>b raw x. x < length raw \<longrightarrow>
        (\<exists>raw'. fragment b raw x = Inr (raw', if is_lower b then x + 1 else x))) \<and>
    (\<forall>pixels w'. raw_data_loop fuel self timeout t_start (replicate RAW_DATA_LEN 0) 0 w
                    = Some (Inr pixels, w') \<longrightarrow> length pixels = 1225) \<and>
    ((\<exists>pixels w'. raw_data_loop fuel self timeout t_start (replicate RAW_DATA_LEN 0) 0 w
                    = Some (Inr pixels, w')) \<longleftrightarrow>
       (\<exists>k<fuel. lower_count self (dev w) (Suc k) = 1225 \<and>
           (\<forall>j<k. lower_count self (dev w) (Suc j) < 1225 \<and> \<not> stream_late w t_start timeout j))) \<and>
    (\<forall>e. (\<exists>w'. raw_data_loop fuel self timeout t_start (replicate RAW_DATA_LEN 0) 0 w
                  = Some (Inl e, w')) \<longleftrightarrow>
       (\<exists>k<fuel. e = RuntimeError (RawTimeout (lower_count self (dev w) (Suc k))) \<and>
           lower_count self (dev w) (Suc k) < 1225 \<and> stream_late w t_start timeout k \<and>
           (\<forall>j<k. lower_count self (dev w) (Suc j) < 1225 \<and> \<not> stream_late w t_start timeout j))) \<and>
    (raw_data_loop fuel self timeout t_start (replicate RAW_DATA_LEN 0) 0 w = None \<longleftrightarrow>
       (\<forall>k<fuel. lower_count self (dev w) (Suc k) < 1225 \<and> \<not> stream_late w t_start timeout k)) \<and>
    (\<forall>pixels. (\<exists>w'. raw_data_loop fuel self timeout t_start (replicate RAW_DATA_LEN 0) 0 w
                      = Some (Inr pixels, w')) \<longleftrightarrow>
       (\<exists>k<fuel. lower_count self (dev w) (Suc k) = 1225 \<and>
           (\<forall>j<k. lower_count self (dev w) (Suc j) < 1225 \<and> \<not> stream_late w t_start timeout j) \<and>
           pixels = assemble (stream_bytes self (dev w) (Suc k))))"
proof (intro conjI allI impI)
  fix b raw x assume "x < length (raw :: int list)"
  from fragment_index [OF this, of b]
  show "\<exists>raw'. fragment b raw x = Inr (raw', if is_lower b then x + 1 else x)" by blast
next
  fix pixels w'
  assume "raw_data_loop fuel self timeout t_start (replicate RAW_DATA_LEN 0) 0 w
            = Some (Inr pixels, w')"
  from raw_data_loop_length [OF assms this] show "length pixels = 1225" .
qed (rule raw_data_loop_success [OF assms] raw_data_loop_timeout [OF assms]
      raw_data_loop_running [OF assms] raw_data_loop_pixels [OF assms])+

lemma sim_after_reads: "after sim_xfer2 regs (replicate k [a, 0]) = regs" if "a AND 0x80 = 0"
  using that by (induction k) (simp_all add: sim_xfer2_def)

lemma is_lower_0x80: "is_lower 0x80"
  unfolding is_lower_def lower_pattern [symmetric] by simp

lemma alt_full_duplex: "full_duplex alt_xfer2"
  by (auto simp: full_duplex_def alt_xfer2_def split: list.split)

lemma alt_after: "after alt_xfer2 d (replicate k tx) = d + k"
  by (induction k arbitrary: d) (simp_all add: alt_xfer2_def split: list.split)

lemma alt_grab_byte:
  "grab_byte alt_driver 0 k = (if even k then 0b01010101 else 0b10001000)"
  by (simp add: grab_byte_def alt_driver_def alt_after grab_tx_def alt_xfer2_def)

lemma alt_patterns:
  "is_upper 0b01010101" "\<not> is_lower 0b01010101" "is_lower 0b10001000" "\<not> is_upper 0b10001000"
  unfolding is_upper_def is_lower_def upper_pattern [symmetric] lower_pattern [symmetric]
  by simp_all

lemma alt_lower_count: "lower_count alt_driver 0 n = n div 2"
  by (induction n) (auto simp: lower_count_Suc alt_grab_byte alt_patterns)

lemma alt_assemble:
  "foldl assemble_step ([], 0) (stream_bytes alt_driver 0 (2 * n)) = (replicate n 0x56, 0)"
proof (induction n)
  case 0
  show ?case by (simp add: stream_bytes_def)
next
  case (Suc n)
  have "stream_bytes alt_driver 0 (2 * Suc n) =
        stream_bytes alt_driver 0 (2 * n) @ [0b01010101, 0b10001000]"
    by (simp add: stream_bytes_Suc alt_grab_byte)
  moreover have "assemble_step (ps, h) 0b01010101 = (ps, 0x54)" for ps h
    by (simp add: assemble_step_def alt_patterns)
  moreover have "assemble_step (ps, h) 0b10001000 = (ps @ [h OR 2], 0)" for ps h
    by (simp add: assemble_step_def alt_patterns)
  ultimately show ?case
    by (simp add: Suc replicate_append_same)
qed

theorem raw_data_stream_witness:
  "full_duplex (xfer2 (sim_driver None PMW3901)) \<and> full_duplex (xfer2 alt_driver) \<and>
   (\<exists>pixels w'. raw_data_loop 1225 (sim_driver None PMW3901) 2000 0 (replicate RAW_DATA_LEN 0) 0
                   (sim_world (sim_regs [(0x58, 0x80)])) = Some (Inr pixels, w')) \<and>
   (\<exists>w'. raw_data_loop 10 (sim_driver None PMW3901) 2 0 (replicate RAW_DATA_LEN 0) 0
                   (sim_world (sim_regs [(0x58, 0x80)])) = Some (Inl (RuntimeError (RawTimeout 4)), w')) \<and>
   (\<exists>w'. raw_data_loop 2450 alt_driver 5000 0 (replicate RAW_DATA_LEN 0) 0 alt_world
            = Some (Inr (replicate 1225 0x56), w'))"
proof -
  define D where "D = sim_driver None PMW3901"
  define W where "W = sim_world (sim_regs [(0x58, 0x80)])"
  have fd: "full_duplex (xfer2 D)"
    by (simp add: D_def sim_driver_def sim_full_duplex)
  have g: "grab_byte D (dev W) k = 0x80" for k
    by (simp add: grab_byte_def D_def W_def sim_driver_def sim_world_def grab_tx_def
        REG_RAWDATA_GRAB_def sim_after_reads)
       (simp add: sim_xfer2_def sim_regs_def)
  have c: "lower_count D (dev W) k = k" for k
    by (induction k) (simp_all add: lower_count_Suc g is_lower_0x80)
  have late: "stream_late W 0 timeout k = (timeout < of_nat k)" for timeout k
    by (simp add: stream_late_def W_def sim_world_def)
  have "\<exists>k<1225. lower_count D (dev W) (Suc k) = 1225 \<and>
           (\<forall>j<k. lower_count D (dev W) (Suc j) < 1225 \<and> \<not> stream_late W 0 2000 j)"
    by (rule exI [of _ 1224]) (simp add: c late)
  then have ok: "\<exists>pixels w'. raw_data_loop 1225 D 2000 0 (replicate RAW_DATA_LEN 0) 0 W
                   = Some (Inr pixels, w')"
    using raw_data_stream [OF fd, of 1225 2000 0 W, THEN conjunct2, THEN conjunct2, THEN conjunct1]
    by blast
  have "\<exists>k<10. RuntimeError (RawTimeout 4) = RuntimeError (RawTimeout (lower_count D (dev W) (Suc k))) \<and>
           lower_count D (dev W) (Suc k) < 1225 \<and> stream_late W 0 2 k \<and>
           (\<forall>j<k. lower_count D (dev W) (Suc j) < 1225 \<and> \<not> stream_late W 0 2 j)"
    by (rule exI [of _ 3]) (simp add: c late)
  then have to: "\<exists>w'. raw_data_loop 10 D 2 0 (replicate RAW_DATA_LEN 0) 0 W
                   = Some (Inl (RuntimeError (RawTimeout 4)), w')"
    using raw_data_stream [OF fd, of 10 2 0 W, THEN conjunct2, THEN conjunct2, THEN conjunct2,
        THEN conjunct1, rule_format, of "RuntimeError (RawTimeout 4)"]
    by blast
  have afd: "full_duplex (xfer2 alt_driver)"
    by (simp add: alt_driver_def alt_full_duplex)
  have d0: "dev alt_world = 0" by (simp add: alt_world_def)
  have alate: "stream_late alt_world 0 5000 k = (5000 < (of_nat k :: rat))" for k
    by (simp add: stream_late_def alt_world_def)
  have a1: "lower_count alt_driver 0 (Suc 2449) = 1225"
    by (simp add: alt_lower_count)
  have a2: "lower_count alt_driver 0 (Suc j) < 1225 \<and> \<not> stream_late alt_world 0 5000 j"
    if "j < 2449" for j
  proof -
    have "Suc j div 2 < 1225" using that by arith
    moreover have "\<not> (5000 < (of_nat j :: rat))"
    proof -
      have "(of_nat j :: rat) \<le> of_nat 2449" using that by simp
      then show ?thesis by simp
    qed
    ultimately show ?thesis by (simp add: alt_lower_count alate)
  qed
  have a3: "replicate 1225 0x56 = assemble (stream_bytes alt_driver 0 (Suc 2449))"
  proof -
    have "Suc 2449 = 2 * 1225" by simp
    then show ?thesis by (simp only: assemble_def alt_assemble fst_conv)
  qed
  have "\<exists>k<2450. lower_count alt_driver (dev alt_world) (Suc k) = 1225 \<and>
           (\<forall>j<k. lower_count alt_driver (dev alt_world) (Suc j) < 1225 \<and>
                  \<not> stream_late alt_world 0 5000 j) \<and>
           replicate 1225 0x56 = assemble (stream_bytes alt_driver (dev alt_world) (Suc k))"
    unfolding d0
    by (rule exI [of _ 2449]) (use a1 a2 a3 in simp)
  then have px: "\<exists>w'. raw_data_loop 2450 alt_driver 5000 0 (replicate RAW_DATA_LEN 0) 0 alt_world
                   = Some (Inr (replicate 1225 0x56), w')"
    using raw_data_stream [OF afd, of 2450 5000 0 alt_world, THEN conjunct2, THEN conjunct2,
        THEN conjunct2, THEN conjunct2, THEN conjunct2, rule_format, of "replicate 1225 0x56"]
    by blast
  show ?thesis
    using fd afd ok to px by (simp add: D_def W_def)
qed

end
